theory Spec2Isabelle
  imports Main "HOL-Library.Word" "HOL-Library.AList"
begin

section \<open>Machine integers\<close>

text \<open>
  Go's \<open>int\<close> and \<open>int64\<close> are taken at 64 bits, two's complement: \<open>+\<close>, \<open>-\<close> and \<open>*\<close>
  wrap around, and the comparisons of the source are the signed ones (\<open><s\<close>, \<open>\<le>s\<close>).
  That is the type of the three dimensions of a size, of a volume and of a virtual
  capacity. Slice lengths, slice indices and size-class identifiers are counted in
  unbounded \<open>int\<close> or \<open>nat\<close>: they are bounded by the number of elements held in memory and
  never reach the 64-bit limit.
\<close>

type_synonym go_int = "64 word"

definition MIN_INT :: go_int where
  "MIN_INT = 0x8000000000000000"

section \<open>Data model\<close>

type_synonym LockerSize = int

text \<open>
  A \<open>*Package\<close> is an address into a store of packages, a \<open>*Locker\<close> held by a package
  is the index of the locker in the inventory's array (a locker is addressed as
  \<open>&inv.Lockers[i]\<close>). A pointer that may be nil is an \<open>option\<close>.
\<close>

type_synonym pkg_ptr = nat
type_synonym locker_ptr = int

record SizeSpec =
  Length :: go_int
  Width :: go_int
  Height :: go_int

record LockerControlSpec =
  SizeId :: LockerSize
  Size :: SizeSpec
  BiggerThan :: "LockerSize list"
  SmallerThan :: "LockerSize list"
  Lockers :: "int list"
  VirtualCapacity :: go_int

record Locker =
  Locker_Id :: string
  Locker_SizeId :: LockerSize
  Contents :: "pkg_ptr option"

record Package =
  Package_Id :: string
  Package_Size :: SizeSpec
  StoredIn :: "locker_ptr option"

type_synonym heap = "pkg_ptr \<Rightarrow> Package"

text \<open>
  The maps \<open>Control\<close> and \<open>Sizes\<close> are iterated by the code, so they are association
  lists: \<open>range\<close> visits the entries in the order of the list, which is arbitrary, and
  every statement below is proved for every order. \<open>map_of\<close> is the lookup,
  \<open>AList.update\<close> the assignment \<open>m[k] = v\<close>. \<open>Control\<close> holds pointers to control
  blocks, one block per key; a write through such a pointer is \<open>upd_ctrl\<close>. The two
  identifier maps are never iterated and are partial functions.
\<close>

record Inventory =
  Inv_Lockers :: "Locker list"
  Control :: "(LockerSize \<times> LockerControlSpec) list"
  Sizes :: "(SizeSpec \<times> LockerSize) list"
  LockersById :: "string \<rightharpoonup> int"
  LockersByPackageId :: "string \<rightharpoonup> int"

text \<open>A panic of the Go runtime, and the errors the code returns.\<close>

datatype fault = NilDereference | IndexOutOfRange | MakeSliceOutOfRange

datatype error =
    LockerNotEmpty
  | PackageAlreadyInLocker
  | FetchFromEmptyLocker
  | NoAvailableLockers
  | DuplicatePackageID
  | PackageIDNotKnown

text \<open>A loop over a slice whose body may panic: the first panic ends it.\<close>

fun foldM :: "('a \<Rightarrow> 's \<Rightarrow> fault + 's) \<Rightarrow> 'a list \<Rightarrow> 's \<Rightarrow> fault + 's" where
  "foldM f [] s = Inr s"
| "foldM f (x # xs) s = (case f x s of Inl e \<Rightarrow> Inl e | Inr s' \<Rightarrow> foldM f xs s')"

section \<open>Sizes\<close>

definition Normalize :: "SizeSpec \<Rightarrow> SizeSpec" where
  "Normalize spec =
    (let l1 = (if Length spec <s 0 then 0 - Length spec else Length spec);
         w1 = (if Width spec <s 0 then 0 - Width spec else Width spec);
         h1 = (if Height spec <s 0 then 0 - Height spec else Height spec);
         (h2, w2) = (if w1 <s h1 then (w1, h1) else (h1, w1));
         (w3, l3) = (if l1 <s w2 then (l1, w2) else (w2, l1));
         (h4, w4) = (if w3 <s h2 then (w3, h2) else (h2, w3))
     in \<lparr>Length = l3, Width = w4, Height = h4\<rparr>)"

definition Volume :: "SizeSpec \<Rightarrow> go_int" where
  "Volume spec = Length spec * Width spec * Height spec"

definition Contains :: "SizeSpec \<Rightarrow> SizeSpec \<Rightarrow> bool" where
  "Contains spec other \<longleftrightarrow>
     Length other \<le>s Length spec \<and> Width other \<le>s Width spec \<and> Height other \<le>s Height spec"

section \<open>Control blocks and the order on size classes\<close>

definition Full :: "LockerControlSpec \<Rightarrow> bool" where
  "Full lcs \<longleftrightarrow> length (Lockers lcs) = 0"

text \<open>
  \<open>Before\<close> reads both control blocks through the interface \<open>IControlSpec\<close>, here the
  lookup function; a class without a block gives a nil pointer, and reading its field
  panics.
\<close>

definition Before ::
  "LockerSize \<Rightarrow> LockerSize \<Rightarrow> (LockerSize \<Rightarrow> LockerControlSpec option) \<Rightarrow> fault + bool" where
  "Before sid other_id iv =
    (case iv sid of None \<Rightarrow> Inl NilDereference
     | Some self \<Rightarrow>
        (case iv other_id of None \<Rightarrow> Inl NilDereference
         | Some other \<Rightarrow>
            Inr (if VirtualCapacity other <s VirtualCapacity self then True
                 else if VirtualCapacity self = VirtualCapacity other
                         \<and> Volume (Size self) <s Volume (Size other) then True
                 else False)))"

definition ControlSpec :: "Inventory \<Rightarrow> LockerSize \<Rightarrow> LockerControlSpec option" where
  "ControlSpec iv size_id = map_of (Control iv) size_id"

definition upd_ctrl ::
  "LockerSize \<Rightarrow> (LockerControlSpec \<Rightarrow> LockerControlSpec) \<Rightarrow> Inventory \<Rightarrow> Inventory" where
  "upd_ctrl k f iv =
     iv\<lparr>Control := map (\<lambda>(k', c). if k' = k then (k', f c) else (k', c)) (Control iv)\<rparr>"

section \<open>Lockers and packages\<close>

definition Put :: "locker_ptr \<Rightarrow> Locker \<Rightarrow> pkg_ptr \<Rightarrow> Package \<Rightarrow> error + (Locker \<times> Package)" where
  "Put lp l pp pkg =
    (if Contents l \<noteq> None then Inl LockerNotEmpty
     else if StoredIn pkg \<noteq> None then Inl PackageAlreadyInLocker
     else Inr (l\<lparr>Contents := Some pp\<rparr>, pkg\<lparr>StoredIn := Some lp\<rparr>))"

definition Fetch :: "Locker \<Rightarrow> heap \<Rightarrow> error + (pkg_ptr \<times> Locker \<times> heap)" where
  "Fetch l h =
    (case Contents l of None \<Rightarrow> Inl FetchFromEmptyLocker
     | Some p \<Rightarrow> Inr (p, l\<lparr>Contents := None\<rparr>, h(p := (h p)\<lparr>StoredIn := None\<rparr>)))"

text \<open>Reading and writing \<open>inv.Lockers[i]\<close>: an index outside the slice panics.\<close>

definition locker_at :: "Inventory \<Rightarrow> int \<Rightarrow> fault + Locker" where
  "locker_at iv i =
    (if 0 \<le> i \<and> i < int (length (Inv_Lockers iv)) then Inr (Inv_Lockers iv ! nat i)
     else Inl IndexOutOfRange)"

definition set_locker :: "Inventory \<Rightarrow> int \<Rightarrow> Locker \<Rightarrow> Inventory" where
  "set_locker iv i l = iv\<lparr>Inv_Lockers := (Inv_Lockers iv)[nat i := l]\<rparr>"

section \<open>Virtual capacity, allocation and deallocation\<close>

definition add_capacity :: "go_int \<Rightarrow> LockerControlSpec \<Rightarrow> LockerControlSpec" where
  "add_capacity by c = c\<lparr>VirtualCapacity := VirtualCapacity c + by\<rparr>"

definition adjust_step :: "go_int \<Rightarrow> LockerSize \<Rightarrow> Inventory \<Rightarrow> fault + Inventory" where
  "adjust_step by other_id iv =
    (case ControlSpec iv other_id of None \<Rightarrow> Inl NilDereference
     | Some _ \<Rightarrow> Inr (upd_ctrl other_id (add_capacity by) iv))"

definition AdjustVirtualCapacity :: "Inventory \<Rightarrow> LockerSize \<Rightarrow> go_int \<Rightarrow> fault + Inventory" where
  "AdjustVirtualCapacity iv size_id by =
    (case ControlSpec iv size_id of None \<Rightarrow> Inl NilDereference
     | Some ctrl \<Rightarrow>
         foldM (adjust_step by) (BiggerThan ctrl) (upd_ctrl size_id (add_capacity by) iv))"

definition AllocateLocker :: "Inventory \<Rightarrow> LockerSize \<Rightarrow> fault + (int \<times> Inventory)" where
  "AllocateLocker iv size_id =
    (case ControlSpec iv size_id of None \<Rightarrow> Inl NilDereference
     | Some ctrl \<Rightarrow>
        if Lockers ctrl = [] then Inl IndexOutOfRange
        else
          let locker_index = last (Lockers ctrl);
              inv1 = upd_ctrl size_id (\<lambda>c. c\<lparr>Lockers := butlast (Lockers c)\<rparr>) iv
          in (case AdjustVirtualCapacity inv1 size_id (- 1) of Inl e \<Rightarrow> Inl e
              | Inr inv2 \<Rightarrow> Inr (locker_index, inv2)))"

definition DeallocateLocker :: "Inventory \<Rightarrow> int \<Rightarrow> fault + Inventory" where
  "DeallocateLocker iv locker_index =
    (case locker_at iv locker_index of Inl e \<Rightarrow> Inl e
     | Inr l \<Rightarrow>
        let size_id = Locker_SizeId l in
        (case ControlSpec iv size_id of None \<Rightarrow> Inl NilDereference
         | Some _ \<Rightarrow>
            AdjustVirtualCapacity
              (upd_ctrl size_id (\<lambda>c. c\<lparr>Lockers := Lockers c @ [locker_index]\<rparr>) iv) size_id 1))"

section \<open>Selection\<close>

definition candidate_step ::
  "Inventory \<Rightarrow> SizeSpec \<Rightarrow> SizeSpec \<times> LockerSize \<Rightarrow> LockerSize list \<Rightarrow> fault + LockerSize list" where
  "candidate_step iv package_size = (\<lambda>(size, size_id) candidate_sizes.
     if \<not> Contains size package_size then Inr candidate_sizes
     else (case ControlSpec iv size_id of None \<Rightarrow> Inl NilDereference
           | Some ctrl \<Rightarrow>
               if Full ctrl then Inr candidate_sizes else Inr (candidate_sizes @ [size_id])))"

definition choose_step :: "Inventory \<Rightarrow> LockerSize \<Rightarrow> LockerSize \<Rightarrow> fault + LockerSize" where
  "choose_step iv sid chosen_id =
    (case Before sid chosen_id (ControlSpec iv) of Inl e \<Rightarrow> Inl e
     | Inr b \<Rightarrow> Inr (if b then sid else chosen_id))"

text \<open>
  The method has a pointer receiver, as the mutating operations have; it is a state
  transformer like them, and returns the inventory it leaves behind. On failure the Go
  code returns \<open>LockerSize(0)\<close> beside the error; the model keeps the error alone.
\<close>

definition GetMostSuitableLockerSize ::
  "Inventory \<Rightarrow> SizeSpec \<Rightarrow> fault + ((error + LockerSize) \<times> Inventory)" where
  "GetMostSuitableLockerSize iv package_size =
    (case foldM (candidate_step iv package_size) (Sizes iv) [] of Inl e \<Rightarrow> Inl e
     | Inr candidate_sizes \<Rightarrow>
        (case candidate_sizes of
           [] \<Rightarrow> Inr (Inl NoAvailableLockers, iv)
         | first # rest \<Rightarrow>
            (case foldM (choose_step iv) rest first of Inl e \<Rightarrow> Inl e
             | Inr chosen_id \<Rightarrow> Inr (Inr chosen_id, iv))))"

section \<open>Deposit and retrieval\<close>

text \<open>
  The repository holds two revisions of these operations. The definitions without a
  suffix are those of \<open>lockers.go\<close>; the definitions ending in \<open>_rev\<close> are those of the
  revision with the typed identifiers \<open>LockerID\<close> and \<open>PackageID\<close>, which puts the package
  in before it allocates, returns the error of \<open>Put\<close>, and maintains
  \<open>LockersByPackageId\<close>. \<open>lockers.go\<close> ignores the result of \<open>Put\<close>.
\<close>

definition DepositPackage ::
  "Inventory \<Rightarrow> heap \<Rightarrow> pkg_ptr \<Rightarrow> fault + ((error + string) \<times> Inventory \<times> heap)" where
  "DepositPackage iv h pkg =
    (if LockersByPackageId iv (Package_Id (h pkg)) \<noteq> None
     then Inr (Inl DuplicatePackageID, iv, h)
     else
      (case GetMostSuitableLockerSize iv (Normalize (Package_Size (h pkg))) of
         Inl e \<Rightarrow> Inl e
       | Inr (Inl err, inv1) \<Rightarrow> Inr (Inl err, inv1, h)
       | Inr (Inr chosen_id, inv1) \<Rightarrow>
          (case AllocateLocker inv1 chosen_id of Inl e \<Rightarrow> Inl e
           | Inr (locker_index, inv2) \<Rightarrow>
              (case locker_at inv2 locker_index of Inl e \<Rightarrow> Inl e
               | Inr l \<Rightarrow>
                  (case Put locker_index l pkg (h pkg) of
                     Inl _ \<Rightarrow> Inr (Inr (Locker_Id l), inv2, h)
                   | Inr (l', p') \<Rightarrow>
                       Inr (Inr (Locker_Id l'), set_locker inv2 locker_index l', h(pkg := p')))))))"

definition DepositPackage_rev ::
  "Inventory \<Rightarrow> heap \<Rightarrow> pkg_ptr \<Rightarrow> fault + ((error + string) \<times> Inventory \<times> heap)" where
  "DepositPackage_rev iv h pkg =
    (if LockersByPackageId iv (Package_Id (h pkg)) \<noteq> None
     then Inr (Inl DuplicatePackageID, iv, h)
     else
      (case GetMostSuitableLockerSize iv (Normalize (Package_Size (h pkg))) of
         Inl e \<Rightarrow> Inl e
       | Inr (Inl err, inv1) \<Rightarrow> Inr (Inl err, inv1, h)
       | Inr (Inr chosen_id, inv1) \<Rightarrow>
          (case ControlSpec inv1 chosen_id of None \<Rightarrow> Inl NilDereference
           | Some ctrl \<Rightarrow>
              if Lockers ctrl = [] then Inl IndexOutOfRange
              else
                let locker_index = last (Lockers ctrl) in
                (case locker_at inv1 locker_index of Inl e \<Rightarrow> Inl e
                 | Inr l \<Rightarrow>
                    (case Put locker_index l pkg (h pkg) of
                       Inl err \<Rightarrow> Inr (Inl err, inv1, h)
                     | Inr (l', p') \<Rightarrow>
                        (case AllocateLocker (set_locker inv1 locker_index l') chosen_id of
                           Inl e \<Rightarrow> Inl e
                         | Inr (_, inv2) \<Rightarrow>
                            let inv3 = inv2\<lparr>LockersByPackageId :=
                                    (LockersByPackageId inv2)(Package_Id p' \<mapsto> locker_index)\<rparr>
                            in (case locker_at inv3 locker_index of Inl e \<Rightarrow> Inl e
                                | Inr l3 \<Rightarrow> Inr (Inr (Locker_Id l3), inv3, h(pkg := p')))))))))"

definition RetrievePackageInternal ::
  "Inventory \<Rightarrow> heap \<Rightarrow> int \<Rightarrow> bool \<Rightarrow> fault + ((error + pkg_ptr) \<times> Inventory \<times> heap)" where
  "RetrievePackageInternal iv h locker_index ok =
    (if \<not> ok then Inr (Inl PackageIDNotKnown, iv, h)
     else
      (case locker_at iv locker_index of Inl e \<Rightarrow> Inl e
       | Inr l \<Rightarrow>
          (case Fetch l h of
             Inl err \<Rightarrow> Inr (Inl err, iv, h)
           | Inr (pkg, l', h') \<Rightarrow>
              (case DeallocateLocker (set_locker iv locker_index l') locker_index of
                 Inl e \<Rightarrow> Inl e
               | Inr inv' \<Rightarrow> Inr (Inr pkg, inv', h')))))"

definition RetrievePackageInternal_rev ::
  "Inventory \<Rightarrow> heap \<Rightarrow> int \<Rightarrow> bool \<Rightarrow> fault + ((error + pkg_ptr) \<times> Inventory \<times> heap)" where
  "RetrievePackageInternal_rev iv h locker_index ok =
    (if \<not> ok then Inr (Inl PackageIDNotKnown, iv, h)
     else
      (case locker_at iv locker_index of Inl e \<Rightarrow> Inl e
       | Inr l \<Rightarrow>
          (case Fetch l h of
             Inl err \<Rightarrow> Inr (Inl err, iv, h)
           | Inr (pkg, l', h') \<Rightarrow>
              (case DeallocateLocker (set_locker iv locker_index l') locker_index of
                 Inl e \<Rightarrow> Inl e
               | Inr inv' \<Rightarrow>
                  Inr (Inr pkg,
                       inv'\<lparr>LockersByPackageId :=
                              (LockersByPackageId inv')(Package_Id (h' pkg) := None)\<rparr>,
                       h')))))"

text \<open>A lookup \<open>lid, ok := m[id]\<close> gives the zero index and \<open>ok = false\<close> for a missing key.\<close>

definition lookup_ok :: "(string \<rightharpoonup> int) \<Rightarrow> string \<Rightarrow> int \<times> bool" where
  "lookup_ok m k = (case m k of None \<Rightarrow> (0, False) | Some lid \<Rightarrow> (lid, True))"

definition RetrievePackageById ::
  "Inventory \<Rightarrow> heap \<Rightarrow> string \<Rightarrow> fault + ((error + pkg_ptr) \<times> Inventory \<times> heap)" where
  "RetrievePackageById iv h pid =
    (let (lid, ok) = lookup_ok (LockersByPackageId iv) pid
     in RetrievePackageInternal iv h lid ok)"

definition RetrievePackageByLockerId ::
  "Inventory \<Rightarrow> heap \<Rightarrow> string \<Rightarrow> fault + ((error + pkg_ptr) \<times> Inventory \<times> heap)" where
  "RetrievePackageByLockerId iv h lkid =
    (let (lid, ok) = lookup_ok (LockersById iv) lkid
     in RetrievePackageInternal iv h lid ok)"

definition RetrievePackageById_rev ::
  "Inventory \<Rightarrow> heap \<Rightarrow> string \<Rightarrow> fault + ((error + pkg_ptr) \<times> Inventory \<times> heap)" where
  "RetrievePackageById_rev iv h pid =
    (let (lid, ok) = lookup_ok (LockersByPackageId iv) pid
     in RetrievePackageInternal_rev iv h lid ok)"

definition RetrievePackageByLockerId_rev ::
  "Inventory \<Rightarrow> heap \<Rightarrow> string \<Rightarrow> fault + ((error + pkg_ptr) \<times> Inventory \<times> heap)" where
  "RetrievePackageByLockerId_rev iv h lkid =
    (let (lid, ok) = lookup_ok (LockersById iv) lkid
     in RetrievePackageInternal_rev iv h lid ok)"

section \<open>Auxiliary notions\<close>

definition go_abs :: "go_int \<Rightarrow> go_int" where
  "go_abs x = (if x <s 0 then 0 - x else x)"

definition sort3 :: "go_int \<Rightarrow> go_int \<Rightarrow> go_int \<Rightarrow> SizeSpec" where
  "sort3 l1 w1 h1 =
    (let (h2, w2) = (if w1 <s h1 then (w1, h1) else (h1, w1));
         (w3, l3) = (if l1 <s w2 then (l1, w2) else (w2, l1));
         (h4, w4) = (if w3 <s h2 then (w3, h2) else (h2, w3))
     in \<lparr>Length = l3, Width = w4, Height = h4\<rparr>)"

definition sizes_ok :: "Inventory \<Rightarrow> bool" where
  "sizes_ok iv \<longleftrightarrow> (\<forall>(sz, sid) \<in> set (Sizes iv). ControlSpec iv sid \<noteq> None)"

definition is_candidate :: "Inventory \<Rightarrow> SizeSpec \<Rightarrow> SizeSpec \<times> LockerSize \<Rightarrow> bool" where
  "is_candidate iv package_size = (\<lambda>(sz, sid).
     Contains sz package_size
     \<and> (case ControlSpec iv sid of None \<Rightarrow> False | Some ctrl \<Rightarrow> \<not> Full ctrl))"

definition candidates :: "Inventory \<Rightarrow> SizeSpec \<Rightarrow> LockerSize list" where
  "candidates iv package_size = map snd (filter (is_candidate iv package_size) (Sizes iv))"

definition sorts_before :: "Inventory \<Rightarrow> LockerSize \<Rightarrow> LockerSize \<Rightarrow> bool" where
  "sorts_before iv a b \<longleftrightarrow> Before a b (ControlSpec iv) = Inr True"

definition key_before :: "LockerControlSpec \<Rightarrow> LockerControlSpec \<Rightarrow> bool" where
  "key_before self other \<longleftrightarrow>
     VirtualCapacity other <s VirtualCapacity self
     \<or> (VirtualCapacity self = VirtualCapacity other
         \<and> Volume (Size self) <s Volume (Size other))"

definition demo_inventory :: Inventory where
  "demo_inventory =
    \<lparr>Inv_Lockers =
       [\<lparr>Locker_Id = ''a'', Locker_SizeId = 1, Contents = None\<rparr>,
        \<lparr>Locker_Id = ''b'', Locker_SizeId = 2, Contents = None\<rparr>,
        \<lparr>Locker_Id = ''c'', Locker_SizeId = 2, Contents = None\<rparr>],
     Control =
       [(1, \<lparr>SizeId = 1, Size = \<lparr>Length = 1, Width = 1, Height = 1\<rparr>,
             BiggerThan = [], SmallerThan = [2], Lockers = [0], VirtualCapacity = 3\<rparr>),
        (2, \<lparr>SizeId = 2, Size = \<lparr>Length = 2, Width = 2, Height = 2\<rparr>,
             BiggerThan = [1], SmallerThan = [], Lockers = [1, 2], VirtualCapacity = 2\<rparr>)],
     Sizes =
       [(\<lparr>Length = 1, Width = 1, Height = 1\<rparr>, 1),
        (\<lparr>Length = 2, Width = 2, Height = 2\<rparr>, 2)],
     LockersById = [''a'' \<mapsto> 0, ''b'' \<mapsto> 1, ''c'' \<mapsto> 2],
     LockersByPackageId = Map.empty\<rparr>"

text \<open>
  The invariants of the data model, as far as the statements below need them: the keys of
  the two iterated maps are distinct (they are maps); the size table and the control
  blocks name each other; the containment lists hold, each once, exactly the classes of
  strictly smaller and of strictly larger size; every free index is a locker of its class;
  every locker is found under its identifier.
\<close>

definition strictly_contains :: "SizeSpec \<Rightarrow> SizeSpec \<Rightarrow> bool" where
  "strictly_contains a b \<longleftrightarrow> Contains a b \<and> a \<noteq> b"

definition smaller_classes :: "Inventory \<Rightarrow> LockerControlSpec \<Rightarrow> LockerSize list" where
  "smaller_classes iv c =
     map fst (filter (\<lambda>(t, ct). strictly_contains (Size c) (Size ct)) (Control iv))"

definition larger_classes :: "Inventory \<Rightarrow> LockerControlSpec \<Rightarrow> LockerSize list" where
  "larger_classes iv c =
     map fst (filter (\<lambda>(t, ct). strictly_contains (Size ct) (Size c)) (Control iv))"

definition keys_ok :: "Inventory \<Rightarrow> bool" where
  "keys_ok iv \<longleftrightarrow> distinct (map fst (Control iv)) \<and> distinct (map fst (Sizes iv))"

definition classes_ok :: "Inventory \<Rightarrow> bool" where
  "classes_ok iv \<longleftrightarrow>
     (\<forall>(sz, sid) \<in> set (Sizes iv). \<exists>c. ControlSpec iv sid = Some c \<and> Size c = sz)
     \<and> (\<forall>(k, c) \<in> set (Control iv). (Size c, k) \<in> set (Sizes iv))"

definition relation_ok :: "Inventory \<Rightarrow> bool" where
  "relation_ok iv \<longleftrightarrow>
     (\<forall>(k, c) \<in> set (Control iv).
        distinct (BiggerThan c) \<and> set (BiggerThan c) = set (smaller_classes iv c)
        \<and> distinct (SmallerThan c) \<and> set (SmallerThan c) = set (larger_classes iv c))"

definition free_ok :: "Inventory \<Rightarrow> bool" where
  "free_ok iv \<longleftrightarrow>
     (\<forall>(k, c) \<in> set (Control iv). \<forall>i \<in> set (Lockers c).
        0 \<le> i \<and> i < int (length (Inv_Lockers iv))
        \<and> Locker_SizeId (Inv_Lockers iv ! nat i) = k)"

definition ids_ok :: "Inventory \<Rightarrow> bool" where
  "ids_ok iv \<longleftrightarrow>
     (\<forall>i < length (Inv_Lockers iv).
        LockersById iv (Locker_Id (Inv_Lockers iv ! i)) = Some (int i))"

definition inv_ok :: "Inventory \<Rightarrow> bool" where
  "inv_ok iv \<longleftrightarrow> keys_ok iv \<and> classes_ok iv \<and> relation_ok iv \<and> free_ok iv \<and> ids_ok iv"

definition cascade :: "go_int \<Rightarrow> LockerSize \<Rightarrow> LockerSize list \<Rightarrow> Inventory \<Rightarrow> Inventory" where
  "cascade by s ids iv =
     fold (\<lambda>t. upd_ctrl t (add_capacity by)) ids (upd_ctrl s (add_capacity by) iv)"

definition pop_free :: "LockerControlSpec \<Rightarrow> LockerControlSpec" where
  "pop_free c = c\<lparr>Lockers := butlast (Lockers c)\<rparr>"

definition push_free :: "int \<Rightarrow> LockerControlSpec \<Rightarrow> LockerControlSpec" where
  "push_free i c = c\<lparr>Lockers := Lockers c @ [i]\<rparr>"

text \<open>The demonstration inventory after allocating in class 1, and after allocating in class 2.\<close>

definition demo_alloc_small :: Inventory where
  "demo_alloc_small =
     demo_inventory\<lparr>Control :=
       [(1, \<lparr>SizeId = 1, Size = \<lparr>Length = 1, Width = 1, Height = 1\<rparr>,
             BiggerThan = [], SmallerThan = [2], Lockers = [], VirtualCapacity = 2\<rparr>),
        (2, \<lparr>SizeId = 2, Size = \<lparr>Length = 2, Width = 2, Height = 2\<rparr>,
             BiggerThan = [1], SmallerThan = [], Lockers = [1, 2], VirtualCapacity = 2\<rparr>)]\<rparr>"

definition demo_alloc_big :: Inventory where
  "demo_alloc_big =
     demo_inventory\<lparr>Control :=
       [(1, \<lparr>SizeId = 1, Size = \<lparr>Length = 1, Width = 1, Height = 1\<rparr>,
             BiggerThan = [], SmallerThan = [2], Lockers = [0], VirtualCapacity = 2\<rparr>),
        (2, \<lparr>SizeId = 2, Size = \<lparr>Length = 2, Width = 2, Height = 2\<rparr>,
             BiggerThan = [1], SmallerThan = [], Lockers = [1], VirtualCapacity = 1\<rparr>)]\<rparr>"

text \<open>Two inventories that differ in the contents of their control blocks only.\<close>

definition same_frame :: "Inventory \<Rightarrow> Inventory \<Rightarrow> bool" where
  "same_frame a b \<longleftrightarrow>
     Inv_Lockers a = Inv_Lockers b \<and> LockersById a = LockersById b
     \<and> LockersByPackageId a = LockersByPackageId b \<and> Sizes a = Sizes b
     \<and> map fst (Control a) = map fst (Control b)"

text \<open>
  Packages for the demonstration inventory: a store whose packages are all 1x1x1 with
  identifier \<open>p\<close>, a store whose packages are 1x3x1 (too long for every class), and the
  state after \<open>lockers.go\<close> has deposited package 0 of the first store.
\<close>

definition demo_heap :: heap where
  "demo_heap = (\<lambda>_. \<lparr>Package_Id = ''p'',
                       Package_Size = \<lparr>Length = 1, Width = 1, Height = 1\<rparr>,
                       StoredIn = None\<rparr>)"

definition demo_heap_big :: heap where
  "demo_heap_big = (\<lambda>_. \<lparr>Package_Id = ''q'',
                           Package_Size = \<lparr>Length = 1, Width = 3, Height = 1\<rparr>,
                           StoredIn = None\<rparr>)"

definition demo_heap_stored :: heap where
  "demo_heap_stored = demo_heap(0 := \<lparr>Package_Id = ''p'',
                       Package_Size = \<lparr>Length = 1, Width = 1, Height = 1\<rparr>,
                       StoredIn = Some 0\<rparr>)"

definition demo_deposited :: Inventory where
  "demo_deposited =
     demo_alloc_small\<lparr>Inv_Lockers :=
       [\<lparr>Locker_Id = ''a'', Locker_SizeId = 1, Contents = Some 0\<rparr>,
        \<lparr>Locker_Id = ''b'', Locker_SizeId = 2, Contents = None\<rparr>,
        \<lparr>Locker_Id = ''c'', Locker_SizeId = 2, Contents = None\<rparr>]\<rparr>"

text \<open>
  What a successful retrieval through index \<open>i\<close> does: the locker held the package, the
  package is taken out of it, the locker is deallocated, and the entry of the package
  identifier is removed.
\<close>

definition retrieval_effect ::
  "Inventory \<Rightarrow> heap \<Rightarrow> int \<Rightarrow> pkg_ptr \<Rightarrow> Inventory \<Rightarrow> heap \<Rightarrow> bool" where
  "retrieval_effect iv h i pkg iv' h' \<longleftrightarrow>
     (\<exists>l iv2. locker_at iv i = Inr l \<and> Contents l = Some pkg
        \<and> h' = h(pkg := (h pkg)\<lparr>StoredIn := None\<rparr>)
        \<and> DeallocateLocker (set_locker iv i (l\<lparr>Contents := None\<rparr>)) i = Inr iv2
        \<and> iv' = iv2\<lparr>LockersByPackageId :=
                     (LockersByPackageId iv2)(Package_Id (h pkg) := None)\<rparr>
        \<and> locker_at iv' i = Inr (l\<lparr>Contents := None\<rparr>)
        \<and> LockersByPackageId iv' (Package_Id (h pkg)) = None)"

section \<open>Normalisation\<close>

lemma sint_MIN_INT: "sint MIN_INT = - (2 ^ 63)"
  by (simp add: MIN_INT_def)

lemma neg_MIN_INT: "- MIN_INT = MIN_INT"
  by (simp add: MIN_INT_def)

lemma MIN_INT_neg: "MIN_INT <s 0"
  by (simp add: word_sless_alt sint_MIN_INT)

lemma MIN_INT_not_nonneg: "\<not> 0 \<le>s MIN_INT"
  by (simp add: word_sle_eq sint_MIN_INT)

lemma sint_neg:
  assumes "x \<noteq> MIN_INT"
  shows "sint (- x) = - sint (x::go_int)"
proof -
  have "sint x \<noteq> sint MIN_INT"
    using assms signed_word_eqI by blast
  hence a: "sint x \<noteq> - (2 ^ 63)"
    by (simp add: sint_MIN_INT)
  have b: "- (2 ^ 63) \<le> sint x"
    using sint_ge [of x] by simp
  have c: "sint x < 2 ^ 63"
    using sint_lt [of x] by simp
  have "sint (- x) = signed_take_bit 63 (- sint x)"
    by (simp add: sint_word_ariths)
  also have "\<dots> = - sint x"
    by (rule signed_take_bit_int_eq_self) (use a b c in auto)
  finally show ?thesis .
qed

lemma neg_neg_fixed: "(x::go_int) <s 0 \<Longrightarrow> (- x) <s 0 \<Longrightarrow> - x = x"
  by (cases "x = MIN_INT") (simp_all add: neg_MIN_INT sint_neg word_sless_alt)

lemma go_abs_idem: "go_abs (go_abs x) = go_abs x"
  using neg_neg_fixed [of x] by (auto simp: go_abs_def)

lemma go_abs_nonneg: "x \<noteq> MIN_INT \<Longrightarrow> 0 \<le>s go_abs x"
  by (simp add: go_abs_def sint_neg word_sless_alt word_sle_eq)

lemma Normalize_alt:
  "Normalize s = sort3 (go_abs (Length s)) (go_abs (Width s)) (go_abs (Height s))"
  unfolding Normalize_def sort3_def go_abs_def Let_def by (rule refl)

lemma sort3_sorted:
  "Height (sort3 l w h) \<le>s Width (sort3 l w h) \<and> Width (sort3 l w h) \<le>s Length (sort3 l w h)"
  by (auto simp: sort3_def Let_def word_sless_alt word_sle_eq)

lemma sort3_id: "h \<le>s w \<Longrightarrow> w \<le>s l \<Longrightarrow> sort3 l w h = \<lparr>Length = l, Width = w, Height = h\<rparr>"
  by (auto simp: sort3_def Let_def word_sless_alt word_sle_eq)

lemma sort3_fields:
  "{Length (sort3 l w h), Width (sort3 l w h), Height (sort3 l w h)} = {l, w, h}"
  by (auto simp: sort3_def Let_def)

lemma Normalize_fields:
  "{Length (Normalize s), Width (Normalize s), Height (Normalize s)}
     = {go_abs (Length s), go_abs (Width s), go_abs (Height s)}"
  unfolding Normalize_alt by (rule sort3_fields)

lemma Normalize_sorted:
  "Height (Normalize s) \<le>s Width (Normalize s) \<and> Width (Normalize s) \<le>s Length (Normalize s)"
  unfolding Normalize_alt by (rule sort3_sorted)

lemma Normalize_abs_fixed:
  "go_abs (Length (Normalize s)) = Length (Normalize s)
   \<and> go_abs (Width (Normalize s)) = Width (Normalize s)
   \<and> go_abs (Height (Normalize s)) = Height (Normalize s)"
proof -
  have "\<And>x. x \<in> {Length (Normalize s), Width (Normalize s), Height (Normalize s)} \<Longrightarrow> go_abs x = x"
    unfolding Normalize_fields by (auto simp: go_abs_idem)
  then show ?thesis
    by simp
qed

lemma Normalize_idem: "Normalize (Normalize s) = Normalize s"
proof -
  have "Normalize (Normalize s)
          = sort3 (Length (Normalize s)) (Width (Normalize s)) (Height (Normalize s))"
    by (simp add: Normalize_alt [of "Normalize s"] Normalize_abs_fixed)
  also have "\<dots> = \<lparr>Length = Length (Normalize s), Width = Width (Normalize s),
                       Height = Height (Normalize s)\<rparr>"
    using Normalize_sorted [of s] by (simp add: sort3_id)
  finally show ?thesis
    by simp
qed

lemma Normalize_nonneg:
  assumes "Length s \<noteq> MIN_INT" "Width s \<noteq> MIN_INT" "Height s \<noteq> MIN_INT"
  shows "0 \<le>s Length (Normalize s) \<and> 0 \<le>s Width (Normalize s) \<and> 0 \<le>s Height (Normalize s)"
proof -
  have "\<And>x. x \<in> {Length (Normalize s), Width (Normalize s), Height (Normalize s)} \<Longrightarrow> 0 \<le>s x"
    unfolding Normalize_fields using assms by (auto simp: go_abs_nonneg)
  then show ?thesis
    by simp
qed

lemma Normalize_MIN_INT:
  "Normalize \<lparr>Length = MIN_INT, Width = 0, Height = 0\<rparr> = \<lparr>Length = 0, Width = 0, Height = MIN_INT\<rparr>"
  by (simp add: Normalize_def Let_def MIN_INT_neg neg_MIN_INT)

text \<open>
  C9, as stated: for every size, \<open>Normalize\<close> is idempotent and its output has three
  non-negative dimensions in descending order. The claim fails where a dimension is the
  least integer, which is its own negation: the output keeps it, negative.
\<close>

theorem C9_counterexample:
  "\<not> (0 \<le>s Height (Normalize \<lparr>Length = MIN_INT, Width = 0, Height = 0\<rparr>))"
  by (simp add: Normalize_MIN_INT MIN_INT_not_nonneg)

text \<open>
  C9, amended: for every size, \<open>Normalize\<close> is idempotent and its output is in descending
  order (Length \<open>\<ge>\<close> Width \<open>\<ge>\<close> Height); when no dimension of the input is the least
  integer, the three dimensions of the output are non-negative.
\<close>

theorem C9_Normalize:
  "Normalize (Normalize s) = Normalize s
   \<and> Height (Normalize s) \<le>s Width (Normalize s)
   \<and> Width (Normalize s) \<le>s Length (Normalize s)
   \<and> (Length s \<noteq> MIN_INT \<and> Width s \<noteq> MIN_INT \<and> Height s \<noteq> MIN_INT \<longrightarrow>
        0 \<le>s Length (Normalize s) \<and> 0 \<le>s Width (Normalize s) \<and> 0 \<le>s Height (Normalize s))"
  using Normalize_idem [of s] Normalize_sorted [of s] Normalize_nonneg [of s] by blast

theorem C9_Normalize_witness:
  "Normalize (Normalize \<lparr>Length = 1, Width = - 5, Height = 3\<rparr>)
     = Normalize \<lparr>Length = 1, Width = - 5, Height = 3\<rparr>
   \<and> 0 \<le>s Width (Normalize \<lparr>Length = 1, Width = - 5, Height = 3\<rparr>)
   \<and> 0 \<le>s Height (Normalize \<lparr>Length = 1, Width = - 5, Height = 3\<rparr>)"
  using C9_Normalize [of "\<lparr>Length = 1, Width = - 5, Height = 3\<rparr>"]
  by (simp add: MIN_INT_def)

section \<open>Writes through the control blocks\<close>

lemma upd_ctrl_fields [simp]:
  "Inv_Lockers (upd_ctrl k f iv) = Inv_Lockers iv"
  "Sizes (upd_ctrl k f iv) = Sizes iv"
  "LockersById (upd_ctrl k f iv) = LockersById iv"
  "LockersByPackageId (upd_ctrl k f iv) = LockersByPackageId iv"
  "map fst (Control (upd_ctrl k f iv)) = map fst (Control iv)"
  by (simp_all add: upd_ctrl_def case_prod_unfold comp_def)

lemma map_of_upd:
  "map_of (map (\<lambda>(k', c). if k' = k then (k', f c) else (k', c)) al) t
     = (if t = k then map_option f (map_of al t) else map_of al t)"
  by (induction al) auto

lemma ControlSpec_upd_ctrl:
  "ControlSpec (upd_ctrl k f iv) t
     = (if t = k then map_option f (ControlSpec iv t) else ControlSpec iv t)"
  by (simp add: ControlSpec_def upd_ctrl_def map_of_upd)

lemma alist_eqI:
  "distinct (map fst xs) \<Longrightarrow> map fst xs = map fst ys \<Longrightarrow> map_of xs = map_of ys \<Longrightarrow> xs = ys"
proof (induction xs arbitrary: ys)
  case Nil
  then show ?case by simp
next
  case (Cons x xs)
  then obtain y ys' where ys: "ys = y # ys'" by (cases ys) auto
  obtain k v where x: "x = (k, v)" by (cases x)
  obtain k' v' where y: "y = (k', v')" by (cases y)
  have kk: "k' = k" using Cons.prems(2) by (simp add: ys x y)
  have "map_of (x # xs) k = map_of ys k" using fun_cong [OF Cons.prems(3), of k] .
  then have vv: "v' = v" by (simp add: ys x y kk)
  have "map_of xs = map_of ys'"
  proof
    fix t
    show "map_of xs t = map_of ys' t"
    proof (cases "t = k")
      case True
      have "k \<notin> fst ` set xs" using Cons.prems(1) by (simp add: x)
      moreover have "k \<notin> fst ` set ys'" using Cons.prems(1,2) by (simp add: x ys y) (metis list.set_map)
      ultimately have "map_of xs k = None" "map_of ys' k = None"
        by (simp_all add: map_of_eq_None_iff)
      then show ?thesis by (simp add: True)
    next
      case False
      have "map_of (x # xs) t = map_of ys t" using fun_cong [OF Cons.prems(3), of t] .
      then show ?thesis using False by (simp add: ys x y kk)
    qed
  qed
  then have "xs = ys'"
    using Cons.IH [of ys'] Cons.prems(1,2) by (simp add: ys)
  then show ?case by (simp add: ys x y kk vv)
qed

lemma Inventory_eqI:
  assumes "Inv_Lockers a = Inv_Lockers b" "Sizes a = Sizes b" "LockersById a = LockersById b"
    "LockersByPackageId a = LockersByPackageId b"
    "distinct (map fst (Control a))" "map fst (Control a) = map fst (Control b)"
    "\<And>t. ControlSpec a t = ControlSpec b t"
  shows "a = (b::Inventory)"
proof -
  have "map_of (Control a) = map_of (Control b)"
    using assms(7) by (auto simp: ControlSpec_def)
  then have "Control a = Control b"
    using alist_eqI assms(5,6) by blast
  then show ?thesis
    using assms(1-4) by simp
qed

text \<open>The cascade of AdjustVirtualCapacity.\<close>

lemma adjust_loop:
  assumes "\<forall>t \<in> set ids. ControlSpec iv t \<noteq> None"
  shows "foldM (adjust_step by) ids iv = Inr (fold (\<lambda>t. upd_ctrl t (add_capacity by)) ids iv)"
  using assms
proof (induction ids arbitrary: iv)
  case Nil
  then show ?case by simp
next
  case (Cons t ids)
  have step: "adjust_step by t iv = Inr (upd_ctrl t (add_capacity by) iv)"
    using Cons.prems by (auto simp: adjust_step_def)
  have "\<forall>u \<in> set ids. ControlSpec (upd_ctrl t (add_capacity by) iv) u \<noteq> None"
    using Cons.prems by (simp add: ControlSpec_upd_ctrl)
  from Cons.IH [OF this] show ?case
    by (simp add: step)
qed

lemma adjust_loop_panics:
  assumes "\<exists>t \<in> set ids. ControlSpec iv t = None"
  shows "\<exists>e. foldM (adjust_step by) ids iv = Inl e"
  using assms
proof (induction ids arbitrary: iv)
  case Nil
  then show ?case by simp
next
  case (Cons t ids)
  show ?case
  proof (cases "ControlSpec iv t")
    case None
    then show ?thesis by (simp add: adjust_step_def)
  next
    case (Some c)
    then have step: "adjust_step by t iv = Inr (upd_ctrl t (add_capacity by) iv)"
      by (simp add: adjust_step_def)
    from Cons.prems obtain u where u: "u \<in> set (t # ids)" "ControlSpec iv u = None"
      by blast
    then have "u \<noteq> t" "u \<in> set ids"
      using Some by auto
    then have "ControlSpec (upd_ctrl t (add_capacity by) iv) u = None"
      using u(2) by (simp add: ControlSpec_upd_ctrl)
    then have "\<exists>u \<in> set ids. ControlSpec (upd_ctrl t (add_capacity by) iv) u = None"
      using \<open>u \<in> set ids\<close> by blast
    from Cons.IH [OF this] show ?thesis
      by (simp add: step)
  qed
qed

lemma fold_upd_fields [simp]:
  "Inv_Lockers (fold (\<lambda>t. upd_ctrl t f) ids iv) = Inv_Lockers iv"
  "Sizes (fold (\<lambda>t. upd_ctrl t f) ids iv) = Sizes iv"
  "LockersById (fold (\<lambda>t. upd_ctrl t f) ids iv) = LockersById iv"
  "LockersByPackageId (fold (\<lambda>t. upd_ctrl t f) ids iv) = LockersByPackageId iv"
  "map fst (Control (fold (\<lambda>t. upd_ctrl t f) ids iv)) = map fst (Control iv)"
  by (induction ids arbitrary: iv) simp_all

lemma ControlSpec_fold_upd:
  "distinct ids \<Longrightarrow>
   ControlSpec (fold (\<lambda>t. upd_ctrl t f) ids iv) u
     = (if u \<in> set ids then map_option f (ControlSpec iv u) else ControlSpec iv u)"
  by (induction ids arbitrary: iv) (auto simp: ControlSpec_upd_ctrl)

lemma AdjustVirtualCapacity_ok:
  assumes "ControlSpec iv s = Some cs" "\<forall>t \<in> set (BiggerThan cs). ControlSpec iv t \<noteq> None"
  shows "AdjustVirtualCapacity iv s by
           = Inr (fold (\<lambda>t. upd_ctrl t (add_capacity by)) (BiggerThan cs)
                    (upd_ctrl s (add_capacity by) iv))"
proof -
  have "\<forall>t \<in> set (BiggerThan cs). ControlSpec (upd_ctrl s (add_capacity by) iv) t \<noteq> None"
    using assms by (simp add: ControlSpec_upd_ctrl)
  from adjust_loop [OF this] show ?thesis
    by (simp add: AdjustVirtualCapacity_def assms(1))
qed

lemma AdjustVirtualCapacity_unknown:
  "ControlSpec iv s = None \<Longrightarrow> AdjustVirtualCapacity iv s by = Inl NilDereference"
  by (simp add: AdjustVirtualCapacity_def)

section \<open>Selection of a size class\<close>

lemma candidate_loop:
  assumes "\<forall>(sz, sid) \<in> set xs. ControlSpec iv sid \<noteq> None"
  shows "foldM (candidate_step iv ps) xs acc
           = Inr (acc @ map snd (filter (is_candidate iv ps) xs))"
  using assms
proof (induction xs arbitrary: acc)
  case Nil
  then show ?case by simp
next
  case (Cons x xs)
  obtain sz sid where x: "x = (sz, sid)" by (cases x)
  from Cons.prems obtain c where c: "ControlSpec iv sid = Some c"
    by (auto simp: x)
  have rest: "\<forall>(sz, sid) \<in> set xs. ControlSpec iv sid \<noteq> None"
    using Cons.prems by simp
  have step: "candidate_step iv ps x acc
                = Inr (if is_candidate iv ps x then acc @ [sid] else acc)"
    by (simp add: x c candidate_step_def is_candidate_def)
  show ?case
    using Cons.IH [OF rest] step by (simp add: x)
qed

lemma Before_total:
  "cs a = Some ca \<Longrightarrow> cs b = Some cb \<Longrightarrow> \<exists>r. Before a b cs = Inr r"
  by (simp add: Before_def)

lemma key_before_irrefl: "\<not> key_before c c"
  by (simp add: key_before_def word_sless_alt)

lemma key_before_trans: "key_before a b \<Longrightarrow> key_before b c \<Longrightarrow> key_before a c"
  unfolding key_before_def word_sless_alt by (elim disjE conjE) simp_all


lemma sorts_before_iff:
  "sorts_before iv a b \<longleftrightarrow>
     (\<exists>ca cb. ControlSpec iv a = Some ca \<and> ControlSpec iv b = Some cb \<and> key_before ca cb)"
  by (cases "ControlSpec iv a"; cases "ControlSpec iv b")
     (simp_all add: sorts_before_def Before_def key_before_def)

lemma sorts_before_irrefl: "\<not> sorts_before iv a a"
  by (auto simp: sorts_before_iff key_before_irrefl)

lemma sorts_before_trans:
  "sorts_before iv a b \<Longrightarrow> sorts_before iv b c \<Longrightarrow> sorts_before iv a c"
  unfolding sorts_before_iff using key_before_trans by fastforce

lemma choose_loop:
  assumes "\<forall>x \<in> set (c # rest). ControlSpec iv x \<noteq> None"
  shows "\<exists>r. foldM (choose_step iv) rest c = Inr r \<and> r \<in> set (c # rest)
            \<and> (r = c \<or> sorts_before iv r c)
            \<and> (\<forall>x \<in> set rest. \<not> sorts_before iv x r)"
  using assms
proof (induction rest arbitrary: c)
  case Nil
  then show ?case by simp
next
  case (Cons x xs)
  from Cons.prems obtain cx cc where cx: "ControlSpec iv x = Some cx" and cc: "ControlSpec iv c = Some cc"
    by auto
  obtain b where b: "Before x c (ControlSpec iv) = Inr b"
    using Before_total [OF cx cc] by blast
  let ?c' = "if b then x else c"
  have step: "choose_step iv x c = Inr ?c'"
    by (simp add: choose_step_def b)
  have "\<forall>y \<in> set (?c' # xs). ControlSpec iv y \<noteq> None"
    using Cons.prems by auto
  from Cons.IH [OF this] obtain r where r: "foldM (choose_step iv) xs ?c' = Inr r"
    "r \<in> set (?c' # xs)" "r = ?c' \<or> sorts_before iv r ?c'" "\<forall>y \<in> set xs. \<not> sorts_before iv y r"
    by blast
  have c'c: "?c' = c \<or> sorts_before iv ?c' c"
    using b by (cases b) (auto simp: sorts_before_def)
  have xc': "\<not> sorts_before iv x ?c'"
    using b sorts_before_irrefl [of iv x] by (cases b) (auto simp: sorts_before_def)
  have "\<not> sorts_before iv x r"
  proof
    assume xr: "sorts_before iv x r"
    show False
    proof (cases "r = ?c'")
      case True
      then show ?thesis using xr xc' by simp
    next
      case False
      then have "sorts_before iv r ?c'" using r(3) by simp
      then show ?thesis using xr xc' sorts_before_trans [of iv x r ?c'] by simp
    qed
  qed
  moreover have "r = c \<or> sorts_before iv r c"
  proof (cases "r = ?c'")
    case True
    then show ?thesis using c'c by simp
  next
    case False
    then have "sorts_before iv r ?c'" using r(3) by simp
    then show ?thesis using c'c sorts_before_trans [of iv r ?c' c] by auto
  qed
  ultimately show ?case
    using r step by auto
qed

lemma candidates_have_blocks:
  "\<forall>x \<in> set (candidates iv ps). ControlSpec iv x \<noteq> None"
  by (auto simp: candidates_def is_candidate_def split: option.splits)

lemma GetMostSuitableLockerSize_alt:
  assumes "sizes_ok iv"
  shows "GetMostSuitableLockerSize iv ps =
          (case candidates iv ps of
             [] \<Rightarrow> Inr (Inl NoAvailableLockers, iv)
           | first # rest \<Rightarrow>
              (case foldM (choose_step iv) rest first of Inl e \<Rightarrow> Inl e
               | Inr chosen_id \<Rightarrow> Inr (Inr chosen_id, iv)))"
proof -
  have "foldM (candidate_step iv ps) (Sizes iv) [] = Inr (candidates iv ps)"
    using assms candidate_loop [of "Sizes iv" iv ps "[]"]
    by (simp add: sizes_ok_def candidates_def)
  then show ?thesis
    by (simp add: GetMostSuitableLockerSize_def)
qed

lemma GetMostSuitableLockerSize_empty:
  assumes "sizes_ok iv" "candidates iv ps = []"
  shows "GetMostSuitableLockerSize iv ps = Inr (Inl NoAvailableLockers, iv)"
  by (simp add: GetMostSuitableLockerSize_alt [OF assms(1)] assms(2))

lemma GetMostSuitableLockerSize_nonempty:
  assumes "sizes_ok iv" "candidates iv ps \<noteq> []"
  shows "\<exists>r. GetMostSuitableLockerSize iv ps = Inr (Inr r, iv)
             \<and> r \<in> set (candidates iv ps)
             \<and> (\<forall>x \<in> set (candidates iv ps). \<not> sorts_before iv x r)"
proof -
  obtain c rest where cr: "candidates iv ps = c # rest"
    using assms(2) by (cases "candidates iv ps") auto
  have "\<forall>x \<in> set (c # rest). ControlSpec iv x \<noteq> None"
    using candidates_have_blocks [of iv ps] by (simp add: cr)
  from choose_loop [OF this] obtain r where r: "foldM (choose_step iv) rest c = Inr r"
    "r \<in> set (c # rest)" "r = c \<or> sorts_before iv r c" "\<forall>x \<in> set rest. \<not> sorts_before iv x r"
    by blast
  have "\<not> sorts_before iv c r"
    using r(3) sorts_before_irrefl [of iv c] sorts_before_trans [of iv c r c] by auto
  then show ?thesis
    using r by (simp add: GetMostSuitableLockerSize_alt [OF assms(1)] cr)
qed

lemma candidates_empty_iff:
  "candidates iv ps = [] \<longleftrightarrow>
     \<not> (\<exists>(sz, sid) \<in> set (Sizes iv).
            Contains sz ps \<and> (\<exists>c. ControlSpec iv sid = Some c \<and> \<not> Full c))"
  by (auto simp: candidates_def is_candidate_def filter_empty_conv split: option.splits)


lemma sizes_ok_demo: "sizes_ok demo_inventory"
  by (simp add: sizes_ok_def demo_inventory_def ControlSpec_def)

lemma demo_select_small:
  "GetMostSuitableLockerSize demo_inventory \<lparr>Length = 1, Width = 1, Height = 1\<rparr>
     = Inr (Inr 1, demo_inventory)"
  by (simp add: GetMostSuitableLockerSize_def candidate_step_def choose_step_def Before_def
      Contains_def Full_def ControlSpec_def demo_inventory_def word_sle_eq word_sless_alt)

lemma demo_select_none:
  "GetMostSuitableLockerSize demo_inventory \<lparr>Length = 3, Width = 1, Height = 1\<rparr>
     = Inr (Inl NoAvailableLockers, demo_inventory)"
  by (simp add: GetMostSuitableLockerSize_def candidate_step_def choose_step_def Before_def
      Contains_def Full_def ControlSpec_def demo_inventory_def word_sle_eq word_sless_alt)

text \<open>
  C5: \<open>GetMostSuitableLockerSize\<close> returns an error exactly when no size class both
  contains the requested size and has a non-empty free list, and it succeeds exactly when
  some class contains the request and is not full. The inventory is one whose size table
  names existing control blocks (\<open>sizes_ok\<close>, invariant 1 of the data model); on such an
  inventory the call never panics.
\<close>

theorem C5_selection_fails_iff_no_candidate:
  assumes "sizes_ok iv"
  shows "((\<exists>e iv'. GetMostSuitableLockerSize iv ps = Inr (Inl e, iv')) \<longleftrightarrow>
            \<not> (\<exists>(sz, sid) \<in> set (Sizes iv).
                  Contains sz ps \<and> (\<exists>c. ControlSpec iv sid = Some c \<and> \<not> Full c)))
       \<and> ((\<exists>sid iv'. GetMostSuitableLockerSize iv ps = Inr (Inr sid, iv')) \<longleftrightarrow>
            (\<exists>(sz, sid) \<in> set (Sizes iv).
                  Contains sz ps \<and> (\<exists>c. ControlSpec iv sid = Some c \<and> \<not> Full c)))"
proof (cases "candidates iv ps = []")
  case True
  then show ?thesis
    using GetMostSuitableLockerSize_empty [OF assms True] candidates_empty_iff [of iv ps]
    by simp
next
  case False
  then show ?thesis
    using GetMostSuitableLockerSize_nonempty [OF assms False] candidates_empty_iff [of iv ps]
    by auto
qed

theorem C5_witness:
  "sizes_ok demo_inventory
   \<and> \<not> (\<exists>(sz, sid) \<in> set (Sizes demo_inventory).
          Contains sz \<lparr>Length = 3, Width = 1, Height = 1\<rparr>
          \<and> (\<exists>c. ControlSpec demo_inventory sid = Some c \<and> \<not> Full c))
   \<and> (\<exists>(sz, sid) \<in> set (Sizes demo_inventory).
          Contains sz \<lparr>Length = 1, Width = 1, Height = 1\<rparr>
          \<and> (\<exists>c. ControlSpec demo_inventory sid = Some c \<and> \<not> Full c))"
proof -
  have a: "\<exists>e iv'. GetMostSuitableLockerSize demo_inventory \<lparr>Length = 3, Width = 1, Height = 1\<rparr>
              = Inr (Inl e, iv')"
    using demo_select_none by blast
  have b: "\<exists>sid iv'. GetMostSuitableLockerSize demo_inventory \<lparr>Length = 1, Width = 1, Height = 1\<rparr>
              = Inr (Inr sid, iv')"
    using demo_select_small by blast
  show ?thesis
    using C5_selection_fails_iff_no_candidate
            [OF sizes_ok_demo, of "\<lparr>Length = 3, Width = 1, Height = 1\<rparr>"]
          C5_selection_fails_iff_no_candidate
            [OF sizes_ok_demo, of "\<lparr>Length = 1, Width = 1, Height = 1\<rparr>"]
          a b sizes_ok_demo
    by blast
qed



text \<open>
  C10: \<open>GetMostSuitableLockerSize\<close> is a pure query: whenever it returns, with a class or
  with an error, the inventory it leaves is the inventory it was given, in every field.
\<close>

theorem C10_selection_pure:
  "GetMostSuitableLockerSize iv ps = Inr (res, iv') \<Longrightarrow> iv' = iv"
  by (auto simp: GetMostSuitableLockerSize_def split: sum.splits list.splits)

theorem C10_witness:
  "GetMostSuitableLockerSize demo_inventory \<lparr>Length = 1, Width = 1, Height = 1\<rparr>
      = Inr (Inr 1, demo_inventory)
   \<and> demo_inventory = demo_inventory"
  by (rule conjI [OF demo_select_small C10_selection_pure [OF demo_select_small]])

section \<open>Allocation, deallocation and the capacity cascade\<close>

lemma cascade_fields [simp]:
  "Inv_Lockers (cascade by s ids iv) = Inv_Lockers iv"
  "Sizes (cascade by s ids iv) = Sizes iv"
  "LockersById (cascade by s ids iv) = LockersById iv"
  "LockersByPackageId (cascade by s ids iv) = LockersByPackageId iv"
  "map fst (Control (cascade by s ids iv)) = map fst (Control iv)"
  by (simp_all add: cascade_def)

lemma ControlSpec_cascade:
  assumes "distinct ids" "s \<notin> set ids"
  shows "ControlSpec (cascade by s ids iv) u
           = (if u = s \<or> u \<in> set ids then map_option (add_capacity by) (ControlSpec iv u)
              else ControlSpec iv u)"
  using assms by (auto simp: cascade_def ControlSpec_fold_upd ControlSpec_upd_ctrl)

lemma AdjustVirtualCapacity_cascade:
  assumes "ControlSpec iv s = Some cs" "\<forall>t \<in> set (BiggerThan cs). ControlSpec iv t \<noteq> None"
  shows "AdjustVirtualCapacity iv s by = Inr (cascade by s (BiggerThan cs) iv)"
  using AdjustVirtualCapacity_ok [OF assms] by (simp add: cascade_def)

lemma AllocateLocker_ok:
  assumes "ControlSpec iv s = Some cs" "Lockers cs \<noteq> []"
    "\<forall>t \<in> set (BiggerThan cs). ControlSpec iv t \<noteq> None"
  shows "AllocateLocker iv s
           = Inr (last (Lockers cs), cascade (- 1) s (BiggerThan cs) (upd_ctrl s pop_free iv))"
proof -
  let ?iv1 = "upd_ctrl s pop_free iv"
  have 1: "ControlSpec ?iv1 s = Some (pop_free cs)"
    by (simp add: ControlSpec_upd_ctrl assms(1))
  have 2: "\<forall>t \<in> set (BiggerThan (pop_free cs)). ControlSpec ?iv1 t \<noteq> None"
    using assms(3) by (simp add: ControlSpec_upd_ctrl pop_free_def)
  have "AdjustVirtualCapacity ?iv1 s (- 1) = Inr (cascade (- 1) s (BiggerThan cs) ?iv1)"
    using AdjustVirtualCapacity_cascade [OF 1 2] by (simp add: pop_free_def)
  moreover have "upd_ctrl s (\<lambda>c. c\<lparr>Lockers := butlast (Lockers c)\<rparr>) iv = ?iv1"
    by (simp add: pop_free_def [abs_def])
  ultimately show ?thesis
    by (simp add: AllocateLocker_def assms(1,2) Let_def)
qed

lemma AllocateLocker_unknown:
  "ControlSpec iv s = None \<Longrightarrow> AllocateLocker iv s = Inl NilDereference"
  by (simp add: AllocateLocker_def)

lemma AllocateLocker_depleted:
  "ControlSpec iv s = Some cs \<Longrightarrow> Lockers cs = [] \<Longrightarrow> AllocateLocker iv s = Inl IndexOutOfRange"
  by (simp add: AllocateLocker_def)

lemma DeallocateLocker_ok:
  assumes "locker_at iv i = Inr l" "ControlSpec iv (Locker_SizeId l) = Some cs"
    "\<forall>t \<in> set (BiggerThan cs). ControlSpec iv t \<noteq> None"
  shows "DeallocateLocker iv i
           = Inr (cascade 1 (Locker_SizeId l) (BiggerThan cs)
                    (upd_ctrl (Locker_SizeId l) (push_free i) iv))"
proof -
  let ?s = "Locker_SizeId l"
  let ?iv1 = "upd_ctrl ?s (push_free i) iv"
  have 1: "ControlSpec ?iv1 ?s = Some (push_free i cs)"
    by (simp add: ControlSpec_upd_ctrl assms(2))
  have 2: "\<forall>t \<in> set (BiggerThan (push_free i cs)). ControlSpec ?iv1 t \<noteq> None"
    using assms(3) by (simp add: ControlSpec_upd_ctrl push_free_def)
  have "AdjustVirtualCapacity ?iv1 ?s 1 = Inr (cascade 1 ?s (BiggerThan cs) ?iv1)"
    using AdjustVirtualCapacity_cascade [OF 1 2] by (simp add: push_free_def)
  moreover have "upd_ctrl ?s (\<lambda>c. c\<lparr>Lockers := Lockers c @ [i]\<rparr>) iv = ?iv1"
    by (simp add: push_free_def [abs_def])
  ultimately show ?thesis
    by (simp add: DeallocateLocker_def assms(1,2) Let_def)
qed

lemma ControlSpec_mem:
  "keys_ok iv \<Longrightarrow> (k, c) \<in> set (Control iv) \<longleftrightarrow> ControlSpec iv k = Some c"
  by (simp add: keys_ok_def ControlSpec_def)

lemma mem_smaller_classes:
  assumes "keys_ok iv"
  shows "t \<in> set (smaller_classes iv c) \<longleftrightarrow>
           (\<exists>ct. ControlSpec iv t = Some ct \<and> strictly_contains (Size c) (Size ct))"
  using ControlSpec_mem [OF assms] by (auto simp: smaller_classes_def image_iff)

lemma mem_larger_classes:
  assumes "keys_ok iv"
  shows "t \<in> set (larger_classes iv c) \<longleftrightarrow>
           (\<exists>ct. ControlSpec iv t = Some ct \<and> strictly_contains (Size ct) (Size c))"
  using ControlSpec_mem [OF assms] by (auto simp: larger_classes_def image_iff)

lemma relation_okD:
  assumes "keys_ok iv" "relation_ok iv" "ControlSpec iv s = Some cs"
  shows "distinct (BiggerThan cs)" "s \<notin> set (BiggerThan cs)"
    "\<And>t. t \<in> set (BiggerThan cs) \<longleftrightarrow>
            (\<exists>ct. ControlSpec iv t = Some ct \<and> strictly_contains (Size cs) (Size ct))"
    "\<forall>t \<in> set (BiggerThan cs). ControlSpec iv t \<noteq> None"
proof -
  have m: "(s, cs) \<in> set (Control iv)"
    using ControlSpec_mem [OF assms(1)] assms(3) by simp
  then have r: "distinct (BiggerThan cs)" "set (BiggerThan cs) = set (smaller_classes iv cs)"
    using assms(2) by (auto simp: relation_ok_def)
  show "distinct (BiggerThan cs)" by (rule r(1))
  show 3: "\<And>t. t \<in> set (BiggerThan cs) \<longleftrightarrow>
            (\<exists>ct. ControlSpec iv t = Some ct \<and> strictly_contains (Size cs) (Size ct))"
    by (simp add: r(2) mem_smaller_classes [OF assms(1)])
  show "s \<notin> set (BiggerThan cs)"
    using assms(3) by (simp add: 3 strictly_contains_def)
  show "\<forall>t \<in> set (BiggerThan cs). ControlSpec iv t \<noteq> None"
    using 3 by auto
qed

lemma add_capacity_inverse [simp]:
  "add_capacity 1 (add_capacity (- 1) c) = c"
  "add_capacity (- 1) (add_capacity 1 c) = c"
  by (simp_all add: add_capacity_def)

lemma map_option_add_capacity_inverse [simp]:
  "map_option (add_capacity 1) (map_option (add_capacity (- 1)) x) = x"
  "map_option (add_capacity (- 1)) (map_option (add_capacity 1) x) = x"
  by (cases x; simp)+

lemma add_capacity_simps [simp]:
  "BiggerThan (add_capacity by c) = BiggerThan c"
  "SmallerThan (add_capacity by c) = SmallerThan c"
  "Lockers (add_capacity by c) = Lockers c"
  "Size (add_capacity by c) = Size c"
  "SizeId (add_capacity by c) = SizeId c"
  "VirtualCapacity (add_capacity by c) = VirtualCapacity c + by"
  by (simp_all add: add_capacity_def)

lemma pop_push_simps [simp]:
  "BiggerThan (pop_free c) = BiggerThan c"
  "SmallerThan (pop_free c) = SmallerThan c"
  "Lockers (pop_free c) = butlast (Lockers c)"
  "Size (pop_free c) = Size c"
  "SizeId (pop_free c) = SizeId c"
  "VirtualCapacity (pop_free c) = VirtualCapacity c"
  "BiggerThan (push_free i c) = BiggerThan c"
  "SmallerThan (push_free i c) = SmallerThan c"
  "Lockers (push_free i c) = Lockers c @ [i]"
  "Size (push_free i c) = Size c"
  "SizeId (push_free i c) = SizeId c"
  "VirtualCapacity (push_free i c) = VirtualCapacity c"
  by (simp_all add: pop_free_def push_free_def)

lemma push_pop_inverse:
  "Lockers c \<noteq> [] \<Longrightarrow> add_capacity 1 (push_free (last (Lockers c)) (add_capacity (- 1) (pop_free c))) = c"
  "add_capacity (- 1) (pop_free (add_capacity 1 (push_free i c))) = c"
  by (simp_all add: add_capacity_def pop_free_def push_free_def)

lemma free_okD:
  assumes "keys_ok iv" "free_ok iv" "ControlSpec iv s = Some cs" "i \<in> set (Lockers cs)"
  shows "locker_at iv i = Inr (Inv_Lockers iv ! nat i)"
    and "Locker_SizeId (Inv_Lockers iv ! nat i) = s"
proof -
  have "(s, cs) \<in> set (Control iv)"
    using ControlSpec_mem [OF assms(1)] assms(3) by simp
  then have "0 \<le> i \<and> i < int (length (Inv_Lockers iv)) \<and> Locker_SizeId (Inv_Lockers iv ! nat i) = s"
    using assms(2,4) by (auto simp: free_ok_def)
  then show "locker_at iv i = Inr (Inv_Lockers iv ! nat i)"
    and "Locker_SizeId (Inv_Lockers iv ! nat i) = s"
    by (simp_all add: locker_at_def)
qed

lemma locker_at_cong:
  "Inv_Lockers a = Inv_Lockers b \<Longrightarrow> locker_at a i = locker_at b i"
  by (simp add: locker_at_def)

lemma allocate_then_deallocate:
  assumes "keys_ok iv" "relation_ok iv" "free_ok iv"
    and cs: "ControlSpec iv s = Some cs" and ne: "Lockers cs \<noteq> []"
  shows "DeallocateLocker (cascade (- 1) s (BiggerThan cs) (upd_ctrl s pop_free iv))
           (last (Lockers cs)) = Inr iv"
proof -
  let ?B = "BiggerThan cs"
  let ?i = "last (Lockers cs)"
  let ?iv1 = "upd_ctrl s pop_free iv"
  let ?iv2 = "cascade (- 1) s ?B ?iv1"
  let ?l = "Inv_Lockers iv ! nat ?i"
  note rel = relation_okD [OF assms(1,2) cs]
  have spec2: "\<And>u. ControlSpec ?iv2 u
      = (if u = s then Some (add_capacity (- 1) (pop_free cs))
         else if u \<in> set ?B then map_option (add_capacity (- 1)) (ControlSpec iv u)
         else ControlSpec iv u)"
    by (simp add: ControlSpec_cascade [OF rel(1,2)] ControlSpec_upd_ctrl cs)
  have "?i \<in> set (Lockers cs)"
    using ne by simp
  from free_okD [OF assms(1,3) cs this]
  have l: "locker_at ?iv2 ?i = Inr ?l" "Locker_SizeId ?l = s"
    by (simp_all add: locker_at_cong [of ?iv2 iv])
  have c2: "ControlSpec ?iv2 (Locker_SizeId ?l) = Some (add_capacity (- 1) (pop_free cs))"
    by (simp add: l(2) spec2)
  have ex: "\<forall>t \<in> set (BiggerThan (add_capacity (- 1) (pop_free cs))). ControlSpec ?iv2 t \<noteq> None"
    using rel(4) by (auto simp: spec2)
  let ?iv4 = "cascade 1 s ?B (upd_ctrl s (push_free ?i) ?iv2)"
  have d: "DeallocateLocker ?iv2 ?i = Inr ?iv4"
    using DeallocateLocker_ok [OF l(1) c2 ex] by (simp add: l(2))
  have spec4: "\<And>u. ControlSpec ?iv4 u = ControlSpec iv u"
    using ne rel(2)
    by (auto simp: ControlSpec_cascade [OF rel(1,2)] ControlSpec_upd_ctrl spec2 cs push_pop_inverse)
  have "?iv4 = iv"
    by (rule Inventory_eqI) (use assms(1) spec4 in \<open>simp_all add: keys_ok_def\<close>)
  then show ?thesis
    using d by simp
qed

lemma deallocate_then_allocate:
  assumes "keys_ok iv" "relation_ok iv"
    and l: "locker_at iv i = Inr l" and cs: "ControlSpec iv (Locker_SizeId l) = Some cs"
  shows "AllocateLocker (cascade 1 (Locker_SizeId l) (BiggerThan cs)
                           (upd_ctrl (Locker_SizeId l) (push_free i) iv)) (Locker_SizeId l)
           = Inr (i, iv)"
proof -
  let ?s = "Locker_SizeId l"
  let ?B = "BiggerThan cs"
  let ?iv2 = "cascade 1 ?s ?B (upd_ctrl ?s (push_free i) iv)"
  note rel = relation_okD [OF assms(1,2) cs]
  have spec2: "\<And>u. ControlSpec ?iv2 u
      = (if u = ?s then Some (add_capacity 1 (push_free i cs))
         else if u \<in> set ?B then map_option (add_capacity 1) (ControlSpec iv u)
         else ControlSpec iv u)"
    by (simp add: ControlSpec_cascade [OF rel(1,2)] ControlSpec_upd_ctrl cs)
  have c2: "ControlSpec ?iv2 ?s = Some (add_capacity 1 (push_free i cs))"
    by (simp add: spec2)
  have ne: "Lockers (add_capacity 1 (push_free i cs)) \<noteq> []"
    by simp
  have ex: "\<forall>t \<in> set (BiggerThan (add_capacity 1 (push_free i cs))). ControlSpec ?iv2 t \<noteq> None"
    using rel(4) by (auto simp: spec2)
  let ?iv4 = "cascade (- 1) ?s ?B (upd_ctrl ?s pop_free ?iv2)"
  have a: "AllocateLocker ?iv2 ?s = Inr (i, ?iv4)"
    using AllocateLocker_ok [OF c2 ne ex] by simp
  have spec4: "\<And>u. ControlSpec ?iv4 u = ControlSpec iv u"
    using rel(2)
    by (auto simp: ControlSpec_cascade [OF rel(1,2)] ControlSpec_upd_ctrl spec2 cs push_pop_inverse)
  have "?iv4 = iv"
    by (rule Inventory_eqI) (use assms(1) spec4 in \<open>simp_all add: keys_ok_def\<close>)
  then show ?thesis
    using a by simp
qed

lemma allocate_effect:
  assumes "keys_ok iv" "relation_ok iv" "free_ok iv"
    and cs: "ControlSpec iv s = Some cs"
    and a: "AllocateLocker iv s = Inr (i, iv')"
  shows "\<forall>t ct. ControlSpec iv t = Some ct \<longrightarrow>
           ControlSpec iv' t =
             Some (ct\<lparr>Lockers := (if t = s then butlast (Lockers ct) else Lockers ct),
                      VirtualCapacity :=
                        (if t = s \<or> strictly_contains (Size cs) (Size ct)
                         then VirtualCapacity ct - 1 else VirtualCapacity ct)\<rparr>)"
    and "\<exists>cs'. ControlSpec iv' s = Some cs' \<and> length (Lockers cs') + 1 = length (Lockers cs)"
    and "i \<in> set (Lockers cs)"
    and "DeallocateLocker iv' i = Inr iv"
proof -
  note rel = relation_okD [OF assms(1,2) cs]
  have ne: "Lockers cs \<noteq> []"
    using a cs by (auto simp: AllocateLocker_def split: if_splits)
  have eq: "i = last (Lockers cs)" "iv' = cascade (- 1) s (BiggerThan cs) (upd_ctrl s pop_free iv)"
    using AllocateLocker_ok [OF cs ne rel(4)] a by simp_all
  have spec: "\<And>u. ControlSpec iv' u
      = (if u = s then Some (add_capacity (- 1) (pop_free cs))
         else if u \<in> set (BiggerThan cs) then map_option (add_capacity (- 1)) (ControlSpec iv u)
         else ControlSpec iv u)"
    by (simp add: eq(2) ControlSpec_cascade [OF rel(1,2)] ControlSpec_upd_ctrl cs)
  show "\<forall>t ct. ControlSpec iv t = Some ct \<longrightarrow>
           ControlSpec iv' t =
             Some (ct\<lparr>Lockers := (if t = s then butlast (Lockers ct) else Lockers ct),
                      VirtualCapacity :=
                        (if t = s \<or> strictly_contains (Size cs) (Size ct)
                         then VirtualCapacity ct - 1 else VirtualCapacity ct)\<rparr>)"
  proof (intro allI impI)
    fix t ct
    assume ct: "ControlSpec iv t = Some ct"
    show "ControlSpec iv' t =
             Some (ct\<lparr>Lockers := (if t = s then butlast (Lockers ct) else Lockers ct),
                      VirtualCapacity :=
                        (if t = s \<or> strictly_contains (Size cs) (Size ct)
                         then VirtualCapacity ct - 1 else VirtualCapacity ct)\<rparr>)"
    proof (cases "t = s")
      case True
      then have "ct = cs" using ct cs by simp
      then show ?thesis
        by (simp add: True spec add_capacity_def pop_free_def)
    next
      case False
      have "t \<in> set (BiggerThan cs) \<longleftrightarrow> strictly_contains (Size cs) (Size ct)"
        using rel(3) [of t] ct by simp
      then show ?thesis
        using False by (simp add: spec ct add_capacity_def)
    qed
  qed
  show "\<exists>cs'. ControlSpec iv' s = Some cs' \<and> length (Lockers cs') + 1 = length (Lockers cs)"
    using ne by (simp add: spec)
  show "i \<in> set (Lockers cs)"
    using ne by (simp add: eq(1))
  show "DeallocateLocker iv' i = Inr iv"
    using allocate_then_deallocate [OF assms(1,2,3) cs ne] by (simp add: eq)
qed

lemma deallocate_effect:
  assumes "keys_ok iv" "relation_ok iv"
    and cs: "ControlSpec iv s = Some cs"
    and l: "locker_at iv i = Inr l" "Locker_SizeId l = s"
    and d: "DeallocateLocker iv i = Inr iv'"
  shows "\<forall>t ct. ControlSpec iv t = Some ct \<longrightarrow>
           ControlSpec iv' t =
             Some (ct\<lparr>Lockers := (if t = s then Lockers ct @ [i] else Lockers ct),
                      VirtualCapacity :=
                        (if t = s \<or> strictly_contains (Size cs) (Size ct)
                         then VirtualCapacity ct + 1 else VirtualCapacity ct)\<rparr>)"
    and "\<exists>cs'. ControlSpec iv' s = Some cs' \<and> length (Lockers cs') = length (Lockers cs) + 1"
    and "AllocateLocker iv' s = Inr (i, iv)"
proof -
  note rel = relation_okD [OF assms(1,2) cs]
  have cs': "ControlSpec iv (Locker_SizeId l) = Some cs"
    using cs l(2) by simp
  have eq: "iv' = cascade 1 s (BiggerThan cs) (upd_ctrl s (push_free i) iv)"
    using DeallocateLocker_ok [OF l(1) cs' rel(4)] d by (simp add: l(2))
  have spec: "\<And>u. ControlSpec iv' u
      = (if u = s then Some (add_capacity 1 (push_free i cs))
         else if u \<in> set (BiggerThan cs) then map_option (add_capacity 1) (ControlSpec iv u)
         else ControlSpec iv u)"
    by (simp add: eq ControlSpec_cascade [OF rel(1,2)] ControlSpec_upd_ctrl cs)
  show "\<forall>t ct. ControlSpec iv t = Some ct \<longrightarrow>
           ControlSpec iv' t =
             Some (ct\<lparr>Lockers := (if t = s then Lockers ct @ [i] else Lockers ct),
                      VirtualCapacity :=
                        (if t = s \<or> strictly_contains (Size cs) (Size ct)
                         then VirtualCapacity ct + 1 else VirtualCapacity ct)\<rparr>)"
  proof (intro allI impI)
    fix t ct
    assume ct: "ControlSpec iv t = Some ct"
    show "ControlSpec iv' t =
             Some (ct\<lparr>Lockers := (if t = s then Lockers ct @ [i] else Lockers ct),
                      VirtualCapacity :=
                        (if t = s \<or> strictly_contains (Size cs) (Size ct)
                         then VirtualCapacity ct + 1 else VirtualCapacity ct)\<rparr>)"
    proof (cases "t = s")
      case True
      then have "ct = cs" using ct cs by simp
      then show ?thesis
        by (simp add: True spec add_capacity_def push_free_def)
    next
      case False
      have "t \<in> set (BiggerThan cs) \<longleftrightarrow> strictly_contains (Size cs) (Size ct)"
        using rel(3) [of t] ct by simp
      then show ?thesis
        using False by (simp add: spec ct add_capacity_def)
    qed
  qed
  show "\<exists>cs'. ControlSpec iv' s = Some cs' \<and> length (Lockers cs') = length (Lockers cs) + 1"
    by (simp add: spec)
  show "AllocateLocker iv' s = Inr (i, iv)"
    using deallocate_then_allocate [OF assms(1,2) l(1) cs'] by (simp add: eq l(2))
qed

lemmas demo_defs = demo_inventory_def demo_alloc_small_def demo_alloc_big_def

lemmas eval_defs = AllocateLocker_def DeallocateLocker_def AdjustVirtualCapacity_def
  adjust_step_def upd_ctrl_def ControlSpec_def add_capacity_def locker_at_def Let_def

lemma keys_ok_demo: "keys_ok demo_inventory"
  by (simp add: keys_ok_def demo_inventory_def)

lemma classes_ok_demo: "classes_ok demo_inventory"
  by (simp add: classes_ok_def demo_inventory_def ControlSpec_def)

lemma relation_ok_demo: "relation_ok demo_inventory"
  by (simp add: relation_ok_def demo_inventory_def smaller_classes_def larger_classes_def
      strictly_contains_def Contains_def word_sle_eq)

lemma free_ok_demo: "free_ok demo_inventory"
  by (simp add: free_ok_def demo_inventory_def)

lemma ids_ok_demo: "ids_ok demo_inventory"
  by (simp add: ids_ok_def demo_inventory_def less_Suc_eq numeral_3_eq_3)

lemma inv_ok_demo: "inv_ok demo_inventory"
  by (simp add: inv_ok_def keys_ok_demo classes_ok_demo relation_ok_demo free_ok_demo ids_ok_demo)

lemma demo_allocate_small: "AllocateLocker demo_inventory 1 = Inr (0, demo_alloc_small)"
  by (simp add: eval_defs demo_defs)

lemma demo_allocate_big: "AllocateLocker demo_inventory 2 = Inr (2, demo_alloc_big)"
  by (simp add: eval_defs demo_defs)

lemma demo_blocks:
  "ControlSpec demo_inventory 2 =
     Some \<lparr>SizeId = 2, Size = \<lparr>Length = 2, Width = 2, Height = 2\<rparr>,
           BiggerThan = [1], SmallerThan = [], Lockers = [1, 2], VirtualCapacity = 2\<rparr>"
  "ControlSpec demo_inventory 1 =
     Some \<lparr>SizeId = 1, Size = \<lparr>Length = 1, Width = 1, Height = 1\<rparr>,
           BiggerThan = [], SmallerThan = [2], Lockers = [0], VirtualCapacity = 3\<rparr>"
  "ControlSpec demo_inventory 7 = None"
  "ControlSpec demo_alloc_small 1 =
     Some \<lparr>SizeId = 1, Size = \<lparr>Length = 1, Width = 1, Height = 1\<rparr>,
           BiggerThan = [], SmallerThan = [2], Lockers = [], VirtualCapacity = 2\<rparr>"
  by (simp_all add: ControlSpec_def demo_defs)

text \<open>
  C2, as stated: a change of one free locker of class S is applied to the virtual capacity
  of S and of every class T that S is strictly smaller than. The code does the opposite:
  \<open>AdjustVirtualCapacity\<close> walks \<open>BiggerThan\<close>, the classes that S is bigger than. In the
  demonstration inventory, allocating in class 1 (1x1x1) leaves the capacity of class 2
  (2x2x2), which strictly contains it, at 2.
\<close>

theorem C2_counterexample:
  "AllocateLocker demo_inventory 1 = Inr (0, demo_alloc_small)
   \<and> map_option Size (ControlSpec demo_inventory 1) = Some \<lparr>Length = 1, Width = 1, Height = 1\<rparr>
   \<and> map_option Size (ControlSpec demo_inventory 2) = Some \<lparr>Length = 2, Width = 2, Height = 2\<rparr>
   \<and> strictly_contains \<lparr>Length = 2, Width = 2, Height = 2\<rparr> \<lparr>Length = 1, Width = 1, Height = 1\<rparr>
   \<and> map_option VirtualCapacity (ControlSpec demo_inventory 2) = Some 2
   \<and> map_option VirtualCapacity (ControlSpec demo_alloc_small 2) = Some 2"
  using demo_allocate_small
  by (simp add: ControlSpec_def demo_defs strictly_contains_def Contains_def word_sle_eq)

text \<open>
  C2, amended: in an inventory that satisfies the invariants of the data model, when
  \<open>AllocateLocker\<close> takes a locker of class S, the virtual capacity of S and of every
  class T strictly smaller than S (the size of S strictly contains the size of T) changes
  by -1, every other capacity is unchanged, and the free list of S loses its last index;
  \<open>DeallocateLocker\<close> of a locker of class S changes the same capacities by +1 and
  appends the index to the free list of S; each undoes the other exactly.
\<close>

theorem C2_capacity_cascade:
  assumes "keys_ok iv" "relation_ok iv" "free_ok iv"
    and "ControlSpec iv s = Some cs"
  shows "(\<forall>i iv'. AllocateLocker iv s = Inr (i, iv') \<longrightarrow>
            (\<forall>t ct. ControlSpec iv t = Some ct \<longrightarrow>
               ControlSpec iv' t =
                 Some (ct\<lparr>Lockers := (if t = s then butlast (Lockers ct) else Lockers ct),
                          VirtualCapacity :=
                            (if t = s \<or> strictly_contains (Size cs) (Size ct)
                             then VirtualCapacity ct - 1 else VirtualCapacity ct)\<rparr>))
            \<and> (\<exists>cs'. ControlSpec iv' s = Some cs'
                      \<and> length (Lockers cs') + 1 = length (Lockers cs))
            \<and> DeallocateLocker iv' i = Inr iv)
       \<and> (\<forall>i l iv'. locker_at iv i = Inr l \<and> Locker_SizeId l = s
                      \<and> DeallocateLocker iv i = Inr iv' \<longrightarrow>
            (\<forall>t ct. ControlSpec iv t = Some ct \<longrightarrow>
               ControlSpec iv' t =
                 Some (ct\<lparr>Lockers := (if t = s then Lockers ct @ [i] else Lockers ct),
                          VirtualCapacity :=
                            (if t = s \<or> strictly_contains (Size cs) (Size ct)
                             then VirtualCapacity ct + 1 else VirtualCapacity ct)\<rparr>))
            \<and> (\<exists>cs'. ControlSpec iv' s = Some cs'
                      \<and> length (Lockers cs') = length (Lockers cs) + 1)
            \<and> AllocateLocker iv' s = Inr (i, iv))"
proof (intro conjI allI impI)
  fix i iv'
  assume a: "AllocateLocker iv s = Inr (i, iv')"
  note e = allocate_effect [OF assms a]
  show "\<exists>cs'. ControlSpec iv' s = Some cs' \<and> length (Lockers cs') + 1 = length (Lockers cs)"
    by (rule e(2))
  show "DeallocateLocker iv' i = Inr iv"
    by (rule e(4))
  fix t ct
  assume "ControlSpec iv t = Some ct"
  then show "ControlSpec iv' t =
                 Some (ct\<lparr>Lockers := (if t = s then butlast (Lockers ct) else Lockers ct),
                          VirtualCapacity :=
                            (if t = s \<or> strictly_contains (Size cs) (Size ct)
                             then VirtualCapacity ct - 1 else VirtualCapacity ct)\<rparr>)"
    using e(1) by blast
next
  fix i l iv'
  assume h: "locker_at iv i = Inr l \<and> Locker_SizeId l = s \<and> DeallocateLocker iv i = Inr iv'"
  then have l: "locker_at iv i = Inr l" "Locker_SizeId l = s" and d: "DeallocateLocker iv i = Inr iv'"
    by simp_all
  note e = deallocate_effect [OF assms(1,2,4) l d]
  show "\<exists>cs'. ControlSpec iv' s = Some cs' \<and> length (Lockers cs') = length (Lockers cs) + 1"
    by (rule e(2))
  show "AllocateLocker iv' s = Inr (i, iv)"
    by (rule e(3))
  fix t ct
  assume "ControlSpec iv t = Some ct"
  then show "ControlSpec iv' t =
                 Some (ct\<lparr>Lockers := (if t = s then Lockers ct @ [i] else Lockers ct),
                          VirtualCapacity :=
                            (if t = s \<or> strictly_contains (Size cs) (Size ct)
                             then VirtualCapacity ct + 1 else VirtualCapacity ct)\<rparr>)"
    using e(1) by blast
qed

theorem C2_witness:
  "keys_ok demo_inventory \<and> relation_ok demo_inventory \<and> free_ok demo_inventory
   \<and> AllocateLocker demo_inventory 2 = Inr (2, demo_alloc_big)
   \<and> DeallocateLocker demo_alloc_big 2 = Inr demo_inventory
   \<and> map_option VirtualCapacity (ControlSpec demo_alloc_big 1) = Some (3 - 1)"
proof -
  note t = C2_capacity_cascade [OF keys_ok_demo relation_ok_demo free_ok_demo demo_blocks(1),
      THEN conjunct1, rule_format, OF demo_allocate_big]
  have "DeallocateLocker demo_alloc_big 2 = Inr demo_inventory"
    using t by blast
  moreover have "map_option VirtualCapacity (ControlSpec demo_alloc_big 1) = Some (3 - 1)"
    using t [THEN conjunct1, rule_format, OF demo_blocks(2)]
    by (simp add: strictly_contains_def Contains_def word_sle_eq)
  ultimately show ?thesis
    using keys_ok_demo relation_ok_demo free_ok_demo demo_allocate_big by blast
qed

text \<open>
  C8: when the class exists, its free list is non-empty and its \<open>BiggerThan\<close> list names
  existing classes (invariant 5 of the data model), \<open>AllocateLocker\<close> returns the last
  index of that free list; on an unknown class it panics with a nil dereference, on a
  depleted class with an index out of range, and \<open>AdjustVirtualCapacity\<close> on an unknown
  class panics with a nil dereference. None of these is an error value.
\<close>

theorem C8_allocate_faults:
  "(ControlSpec iv s = Some cs \<and> Lockers cs \<noteq> []
      \<and> (\<forall>t \<in> set (BiggerThan cs). ControlSpec iv t \<noteq> None)
      \<longrightarrow> (\<exists>iv'. AllocateLocker iv s = Inr (last (Lockers cs), iv'))
          \<and> last (Lockers cs) \<in> set (Lockers cs))
   \<and> (ControlSpec iv s = None \<longrightarrow> AllocateLocker iv s = Inl NilDereference)
   \<and> (ControlSpec iv s = Some cs \<and> Lockers cs = [] \<longrightarrow> AllocateLocker iv s = Inl IndexOutOfRange)
   \<and> (ControlSpec iv s = None \<longrightarrow> AdjustVirtualCapacity iv s by = Inl NilDereference)"
  using AllocateLocker_ok [of iv s cs] AllocateLocker_unknown [of iv s]
    AllocateLocker_depleted [of iv s cs] AdjustVirtualCapacity_unknown [of iv s "by"]
  by simp

theorem C8_witness:
  "(\<exists>iv'. AllocateLocker demo_inventory 2 = Inr (2, iv'))
   \<and> AllocateLocker demo_inventory 7 = Inl NilDereference
   \<and> AllocateLocker demo_alloc_small 1 = Inl IndexOutOfRange
   \<and> AdjustVirtualCapacity demo_inventory 7 1 = Inl NilDereference"
  using C8_allocate_faults [of demo_inventory 2
      "\<lparr>SizeId = 2, Size = \<lparr>Length = 2, Width = 2, Height = 2\<rparr>,
        BiggerThan = [1], SmallerThan = [], Lockers = [1, 2], VirtualCapacity = 2\<rparr>" 1]
    C8_allocate_faults [of demo_inventory 7 undefined 1]
    C8_allocate_faults [of demo_alloc_small 1
      "\<lparr>SizeId = 1, Size = \<lparr>Length = 1, Width = 1, Height = 1\<rparr>,
        BiggerThan = [], SmallerThan = [2], Lockers = [], VirtualCapacity = 2\<rparr>" 1]
  by (simp add: demo_blocks)

section \<open>What the control-block operations leave alone\<close>

text \<open>The control-block operations neither read nor write the identifier maps, and they
  do not write the lockers.\<close>

lemma ControlSpec_frame [simp]:
  "ControlSpec (iv\<lparr>Inv_Lockers := xs\<rparr>) = ControlSpec iv"
  "ControlSpec (iv\<lparr>LockersByPackageId := m\<rparr>) = ControlSpec iv"
  "ControlSpec (set_locker iv i l) = ControlSpec iv"
  by (simp_all add: ControlSpec_def set_locker_def fun_eq_iff)

lemma locker_at_frame [simp]:
  "locker_at (iv\<lparr>LockersByPackageId := m\<rparr>) i = locker_at iv i"
  "locker_at (upd_ctrl k f iv) i = locker_at iv i"
  by (simp_all add: locker_at_def)

lemma upd_ctrl_commute:
  "upd_ctrl k f (iv\<lparr>Inv_Lockers := xs\<rparr>) = (upd_ctrl k f iv)\<lparr>Inv_Lockers := xs\<rparr>"
  "upd_ctrl k f (iv\<lparr>LockersByPackageId := m\<rparr>) = (upd_ctrl k f iv)\<lparr>LockersByPackageId := m\<rparr>"
  by (simp_all add: upd_ctrl_def)

lemma adjust_step_frame:
  "adjust_step by t (iv\<lparr>Inv_Lockers := xs\<rparr>)
     = (case adjust_step by t iv of Inl e \<Rightarrow> Inl e
        | Inr iv' \<Rightarrow> Inr (iv'\<lparr>Inv_Lockers := xs\<rparr>))"
  "adjust_step by t (iv\<lparr>LockersByPackageId := m\<rparr>)
     = (case adjust_step by t iv of Inl e \<Rightarrow> Inl e
        | Inr iv' \<Rightarrow> Inr (iv'\<lparr>LockersByPackageId := m\<rparr>))"
  by (cases "ControlSpec iv t"; simp add: adjust_step_def upd_ctrl_commute)+

lemma adjust_loop_lockers:
  "foldM (adjust_step by) ids (iv\<lparr>Inv_Lockers := xs\<rparr>)
     = (case foldM (adjust_step by) ids iv of Inl e \<Rightarrow> Inl e
        | Inr iv' \<Rightarrow> Inr (iv'\<lparr>Inv_Lockers := xs\<rparr>))"
proof (induction ids arbitrary: iv)
  case Nil
  then show ?case by simp
next
  case (Cons t ids)
  show ?case
    by (cases "adjust_step by t iv") (simp_all add: adjust_step_frame Cons.IH)
qed

lemma adjust_loop_packages:
  "foldM (adjust_step by) ids (iv\<lparr>LockersByPackageId := m\<rparr>)
     = (case foldM (adjust_step by) ids iv of Inl e \<Rightarrow> Inl e
        | Inr iv' \<Rightarrow> Inr (iv'\<lparr>LockersByPackageId := m\<rparr>))"
proof (induction ids arbitrary: iv)
  case Nil
  then show ?case by simp
next
  case (Cons t ids)
  show ?case
    by (cases "adjust_step by t iv") (simp_all add: adjust_step_frame Cons.IH)
qed

lemma AdjustVirtualCapacity_lockers:
  "AdjustVirtualCapacity (iv\<lparr>Inv_Lockers := xs\<rparr>) s by
     = (case AdjustVirtualCapacity iv s by of Inl e \<Rightarrow> Inl e
        | Inr iv' \<Rightarrow> Inr (iv'\<lparr>Inv_Lockers := xs\<rparr>))"
  by (cases "ControlSpec iv s")
     (simp_all add: AdjustVirtualCapacity_def upd_ctrl_commute adjust_loop_lockers)

lemma AdjustVirtualCapacity_packages:
  "AdjustVirtualCapacity (iv\<lparr>LockersByPackageId := m\<rparr>) s by
     = (case AdjustVirtualCapacity iv s by of Inl e \<Rightarrow> Inl e
        | Inr iv' \<Rightarrow> Inr (iv'\<lparr>LockersByPackageId := m\<rparr>))"
  by (cases "ControlSpec iv s")
     (simp_all add: AdjustVirtualCapacity_def upd_ctrl_commute adjust_loop_packages)

lemma AllocateLocker_lockers:
  "AllocateLocker (iv\<lparr>Inv_Lockers := xs\<rparr>) s
     = (case AllocateLocker iv s of Inl e \<Rightarrow> Inl e
        | Inr (i, iv') \<Rightarrow> Inr (i, iv'\<lparr>Inv_Lockers := xs\<rparr>))"
  by (cases "ControlSpec iv s")
     (simp_all add: AllocateLocker_def Let_def upd_ctrl_commute AdjustVirtualCapacity_lockers
        split: sum.splits)

lemma DeallocateLocker_packages:
  "DeallocateLocker (iv\<lparr>LockersByPackageId := m\<rparr>) i
     = (case DeallocateLocker iv i of Inl e \<Rightarrow> Inl e
        | Inr iv' \<Rightarrow> Inr (iv'\<lparr>LockersByPackageId := m\<rparr>))"
proof (cases "locker_at iv i")
  case (Inl e)
  then show ?thesis
    by (simp add: DeallocateLocker_def)
next
  case (Inr l)
  show ?thesis
    by (cases "ControlSpec iv (Locker_SizeId l)")
       (simp_all add: DeallocateLocker_def Inr Let_def upd_ctrl_commute
          AdjustVirtualCapacity_packages)
qed

lemma same_frame_upd [simp]: "same_frame (upd_ctrl k f iv) iv"
  by (simp add: same_frame_def)

lemma same_frame_trans: "same_frame a b \<Longrightarrow> same_frame b c \<Longrightarrow> same_frame a c"
  by (simp add: same_frame_def)

lemma adjust_loop_keeps:
  "foldM (adjust_step by) ids iv = Inr iv' \<Longrightarrow> same_frame iv' iv"
proof (induction ids arbitrary: iv)
  case Nil
  then show ?case by (simp add: same_frame_def)
next
  case (Cons t ids)
  then obtain iv1 where 1: "adjust_step by t iv = Inr iv1" "foldM (adjust_step by) ids iv1 = Inr iv'"
    by (cases "adjust_step by t iv") simp_all
  have "same_frame iv1 iv"
    using 1(1) by (auto simp: adjust_step_def split: option.splits)
  then show ?case
    using Cons.IH [OF 1(2)] same_frame_trans by blast
qed

lemma AdjustVirtualCapacity_keeps:
  "AdjustVirtualCapacity iv s by = Inr iv' \<Longrightarrow> same_frame iv' iv"
  using adjust_loop_keeps [where iv = "upd_ctrl s (add_capacity by) iv"] same_frame_trans
  by (fastforce simp: AdjustVirtualCapacity_def split: option.splits)

lemma AllocateLocker_keeps:
  assumes "AllocateLocker iv s = Inr (i, iv')"
  shows "same_frame iv' iv"
proof -
  let ?iv1 = "upd_ctrl s (\<lambda>c. c\<lparr>Lockers := butlast (Lockers c)\<rparr>) iv"
  have "AdjustVirtualCapacity ?iv1 s (- 1) = Inr iv'"
    using assms
    by (auto simp: AllocateLocker_def Let_def split: option.splits if_splits sum.splits)
  from AdjustVirtualCapacity_keeps [OF this] show ?thesis
    using same_frame_trans same_frame_upd by blast
qed

lemma DeallocateLocker_keeps:
  "DeallocateLocker iv i = Inr iv' \<Longrightarrow> same_frame iv' iv"
proof -
  assume d: "DeallocateLocker iv i = Inr iv'"
  then obtain l where l: "locker_at iv i = Inr l"
    by (cases "locker_at iv i") (simp_all add: DeallocateLocker_def)
  let ?s = "Locker_SizeId l"
  let ?iv1 = "upd_ctrl ?s (\<lambda>c. c\<lparr>Lockers := Lockers c @ [i]\<rparr>) iv"
  have "AdjustVirtualCapacity ?iv1 ?s 1 = Inr iv'"
    using d l by (cases "ControlSpec iv ?s") (simp_all add: DeallocateLocker_def Let_def)
  from AdjustVirtualCapacity_keeps [OF this] show ?thesis
    using same_frame_trans same_frame_upd by blast
qed

section \<open>Deposit\<close>

lemma GetMostSuitableLockerSize_keeps:
  "GetMostSuitableLockerSize iv ps = Inr (res, iv') \<Longrightarrow> iv' = iv"
  by (auto simp: GetMostSuitableLockerSize_def split: sum.splits list.splits)

lemma Put_error_cases:
  "Put lp l pp pkg = Inl err \<longleftrightarrow>
     (Contents l \<noteq> None \<and> err = LockerNotEmpty)
     \<or> (Contents l = None \<and> StoredIn pkg \<noteq> None \<and> err = PackageAlreadyInLocker)"
  by (auto simp: Put_def)

lemma Put_ok_iff:
  "Put lp l pp pkg = Inr (l', p') \<longleftrightarrow>
     Contents l = None \<and> StoredIn pkg = None
     \<and> l' = l\<lparr>Contents := Some pp\<rparr> \<and> p' = pkg\<lparr>StoredIn := Some lp\<rparr>"
  by (auto simp: Put_def)

lemma DepositPackage_duplicate:
  assumes "LockersByPackageId iv (Package_Id (h p)) \<noteq> None"
  shows "DepositPackage iv h p = Inr (Inl DuplicatePackageID, iv, h)"
    and "DepositPackage_rev iv h p = Inr (Inl DuplicatePackageID, iv, h)"
  using assms by (simp_all add: DepositPackage_def DepositPackage_rev_def)

lemma DepositPackage_no_locker:
  assumes "sizes_ok iv" "LockersByPackageId iv (Package_Id (h p)) = None"
    and "candidates iv (Normalize (Package_Size (h p))) = []"
  shows "DepositPackage iv h p = Inr (Inl NoAvailableLockers, iv, h)"
    and "DepositPackage_rev iv h p = Inr (Inl NoAvailableLockers, iv, h)"
  using GetMostSuitableLockerSize_empty [OF assms(1,3)] assms(2)
  by (simp_all add: DepositPackage_def DepositPackage_rev_def)

lemma DepositPackage_error_unchanged:
  assumes "DepositPackage iv h p = Inr (Inl err, iv', h')"
  shows "iv' = iv \<and> h' = h"
proof (cases "LockersByPackageId iv (Package_Id (h p))")
  case (Some a)
  then show ?thesis
    using assms by (simp add: DepositPackage_def)
next
  case None
  show ?thesis
  proof (cases "GetMostSuitableLockerSize iv (Normalize (Package_Size (h p)))")
    case (Inl f)
    then show ?thesis
      using assms None by (simp add: DepositPackage_def)
  next
    case (Inr r)
    obtain res iv1 where r: "r = (res, iv1)" by (cases r)
    have iv1: "iv1 = iv"
      using GetMostSuitableLockerSize_keeps Inr r by blast
    show ?thesis
    proof (cases res)
      case (Inl e)
      then show ?thesis
        using assms None Inr r iv1 by (simp add: DepositPackage_def)
    next
      case (Inr chosen)
      then show ?thesis
        using assms None \<open>GetMostSuitableLockerSize iv (Normalize (Package_Size (h p))) = Inr r\<close> r
        by (auto simp: DepositPackage_def split: sum.splits prod.splits)
    qed
  qed
qed

lemma DepositPackage_rev_error_unchanged:
  assumes "DepositPackage_rev iv h p = Inr (Inl err, iv', h')"
  shows "iv' = iv \<and> h' = h"
proof (cases "LockersByPackageId iv (Package_Id (h p))")
  case (Some a)
  then show ?thesis
    using assms by (simp add: DepositPackage_rev_def)
next
  case None
  show ?thesis
  proof (cases "GetMostSuitableLockerSize iv (Normalize (Package_Size (h p)))")
    case (Inl f)
    then show ?thesis
      using assms None by (simp add: DepositPackage_rev_def)
  next
    case (Inr r)
    obtain res iv1 where r: "r = (res, iv1)" by (cases r)
    have iv1: "iv1 = iv"
      using GetMostSuitableLockerSize_keeps Inr r by blast
    show ?thesis
    proof (cases res)
      case (Inl e)
      then show ?thesis
        using assms None Inr r iv1 by (simp add: DepositPackage_rev_def)
    next
      case (Inr chosen)
      then show ?thesis
        using assms None \<open>GetMostSuitableLockerSize iv (Normalize (Package_Size (h p))) = Inr r\<close> r iv1
        by (auto simp: DepositPackage_rev_def Let_def
            split: sum.splits prod.splits option.splits if_splits)
    qed
  qed
qed

section \<open>Failed deposits\<close>

lemma demo_no_duplicate:
  "LockersByPackageId demo_inventory (Package_Id (demo_heap_big 0)) = None"
  by (simp add: demo_inventory_def demo_heap_big_def)

lemma demo_too_big:
  "\<not> (\<exists>(sz, sid) \<in> set (Sizes demo_inventory).
         Contains sz (Normalize (Package_Size (demo_heap_big 0)))
         \<and> (\<exists>c. ControlSpec demo_inventory sid = Some c \<and> \<not> Full c))"
  by (simp add: demo_inventory_def demo_heap_big_def Normalize_def Contains_def Let_def
      word_sle_eq word_sless_alt)

text \<open>
  C7: when \<open>DepositPackage\<close> fails, it returns an error and leaves the inventory and the
  packages as they were. A registered package identifier gives the duplicate error; when
  no class both fits the normalised size and has a free locker, the selection error comes
  back; and whatever error is returned, by either revision, the state is unchanged.
\<close>

theorem C7_deposit_failure_unchanged:
  "(LockersByPackageId iv (Package_Id (h p)) \<noteq> None \<longrightarrow>
      DepositPackage iv h p = Inr (Inl DuplicatePackageID, iv, h)
      \<and> DepositPackage_rev iv h p = Inr (Inl DuplicatePackageID, iv, h))
   \<and> (sizes_ok iv \<and> LockersByPackageId iv (Package_Id (h p)) = None
       \<and> \<not> (\<exists>(sz, sid) \<in> set (Sizes iv).
               Contains sz (Normalize (Package_Size (h p)))
               \<and> (\<exists>c. ControlSpec iv sid = Some c \<and> \<not> Full c)) \<longrightarrow>
      DepositPackage iv h p = Inr (Inl NoAvailableLockers, iv, h)
      \<and> DepositPackage_rev iv h p = Inr (Inl NoAvailableLockers, iv, h))
   \<and> (\<forall>err iv' h'.
         DepositPackage iv h p = Inr (Inl err, iv', h')
         \<or> DepositPackage_rev iv h p = Inr (Inl err, iv', h') \<longrightarrow> iv' = iv \<and> h' = h)"
proof (intro conjI impI allI)
  assume "LockersByPackageId iv (Package_Id (h p)) \<noteq> None"
  then show "DepositPackage iv h p = Inr (Inl DuplicatePackageID, iv, h)"
    and "DepositPackage_rev iv h p = Inr (Inl DuplicatePackageID, iv, h)"
    by (rule DepositPackage_duplicate)+
next
  assume a: "sizes_ok iv \<and> LockersByPackageId iv (Package_Id (h p)) = None
       \<and> \<not> (\<exists>(sz, sid) \<in> set (Sizes iv).
               Contains sz (Normalize (Package_Size (h p)))
               \<and> (\<exists>c. ControlSpec iv sid = Some c \<and> \<not> Full c))"
  then have c: "candidates iv (Normalize (Package_Size (h p))) = []"
    by (simp add: candidates_empty_iff)
  show "DepositPackage iv h p = Inr (Inl NoAvailableLockers, iv, h)"
    and "DepositPackage_rev iv h p = Inr (Inl NoAvailableLockers, iv, h)"
    using DepositPackage_no_locker [of iv h p] a c by simp_all
next
  fix err iv' h'
  assume "DepositPackage iv h p = Inr (Inl err, iv', h')
         \<or> DepositPackage_rev iv h p = Inr (Inl err, iv', h')"
  then show "iv' = iv" and "h' = h"
    using DepositPackage_error_unchanged DepositPackage_rev_error_unchanged by blast+
qed

theorem C7_witness:
  "DepositPackage demo_inventory demo_heap_big 0
      = Inr (Inl NoAvailableLockers, demo_inventory, demo_heap_big)
   \<and> DepositPackage_rev demo_inventory demo_heap_big 0
      = Inr (Inl NoAvailableLockers, demo_inventory, demo_heap_big)"
  using C7_deposit_failure_unchanged [of demo_inventory demo_heap_big 0]
    sizes_ok_demo demo_no_duplicate demo_too_big
  by blast

section \<open>Retrieval\<close>

lemma Fetch_ok_iff:
  "Fetch l h = Inr (pkg, l', h') \<longleftrightarrow>
     Contents l = Some pkg \<and> l' = l\<lparr>Contents := None\<rparr>
     \<and> h' = h(pkg := (h pkg)\<lparr>StoredIn := None\<rparr>)"
  by (cases "Contents l") (auto simp: Fetch_def)

lemma Fetch_error_iff:
  "Fetch l h = Inl err \<longleftrightarrow> Contents l = None \<and> err = FetchFromEmptyLocker"
  by (cases "Contents l") (auto simp: Fetch_def)

lemma RetrievePackageInternal_rev_unknown_iff:
  "RetrievePackageInternal_rev iv h i ok = Inr (Inl PackageIDNotKnown, iv', h')
     \<longleftrightarrow> \<not> ok \<and> iv' = iv \<and> h' = h"
proof (cases ok)
  case False
  then show ?thesis
    by (auto simp: RetrievePackageInternal_rev_def)
next
  case True
  show ?thesis
  proof (cases "locker_at iv i")
    case (Inl e)
    then show ?thesis
      using True by (simp add: RetrievePackageInternal_rev_def)
  next
    case (Inr l)
    show ?thesis
    proof (cases "Fetch l h")
      case (Inl err)
      then have e: "err = FetchFromEmptyLocker"
        by (simp add: Fetch_error_iff)
      show ?thesis
        using True \<open>locker_at iv i = Inr l\<close>
        by (simp add: RetrievePackageInternal_rev_def Inl e)
    next
      case (Inr r)
      then show ?thesis
        using True \<open>locker_at iv i = Inr l\<close>
        by (cases r) (simp add: RetrievePackageInternal_rev_def split: sum.splits)
    qed
  qed
qed

lemma RetrievePackageInternal_unknown_iff:
  "RetrievePackageInternal iv h i ok = Inr (Inl PackageIDNotKnown, iv', h')
     \<longleftrightarrow> \<not> ok \<and> iv' = iv \<and> h' = h"
proof (cases ok)
  case False
  then show ?thesis
    by (auto simp: RetrievePackageInternal_def)
next
  case True
  show ?thesis
  proof (cases "locker_at iv i")
    case (Inl e)
    then show ?thesis
      using True by (simp add: RetrievePackageInternal_def)
  next
    case (Inr l)
    show ?thesis
    proof (cases "Fetch l h")
      case (Inl err)
      then have e: "err = FetchFromEmptyLocker"
        by (simp add: Fetch_error_iff)
      show ?thesis
        using True \<open>locker_at iv i = Inr l\<close>
        by (simp add: RetrievePackageInternal_def Inl e)
    next
      case (Inr r)
      then show ?thesis
        using True \<open>locker_at iv i = Inr l\<close>
        by (cases r) (simp add: RetrievePackageInternal_def split: sum.splits)
    qed
  qed
qed

lemma RetrievePackageInternal_rev_success:
  assumes "RetrievePackageInternal_rev iv h i ok = Inr (Inr pkg, iv', h')"
  shows "ok \<and> (\<exists>l iv2. locker_at iv i = Inr l \<and> Contents l = Some pkg
            \<and> h' = h(pkg := (h pkg)\<lparr>StoredIn := None\<rparr>)
            \<and> DeallocateLocker (set_locker iv i (l\<lparr>Contents := None\<rparr>)) i = Inr iv2
            \<and> iv' = iv2\<lparr>LockersByPackageId :=
                         (LockersByPackageId iv2)(Package_Id (h pkg) := None)\<rparr>)"
proof -
  have ok: ok
    using assms by (cases ok) (simp_all add: RetrievePackageInternal_rev_def)
  then obtain l where l: "locker_at iv i = Inr l"
    using assms by (cases "locker_at iv i") (simp_all add: RetrievePackageInternal_rev_def)
  obtain p l' h1 where f: "Fetch l h = Inr (p, l', h1)"
    using assms ok l
    by (cases "Fetch l h") (auto simp: RetrievePackageInternal_rev_def)
  note f' = f [unfolded Fetch_ok_iff]
  obtain iv2 where d: "DeallocateLocker (set_locker iv i l') i = Inr iv2"
    using assms ok l f
    by (cases "DeallocateLocker (set_locker iv i l') i") (simp_all add: RetrievePackageInternal_rev_def)
  have "pkg = p" "h' = h1"
    "iv' = iv2\<lparr>LockersByPackageId := (LockersByPackageId iv2)(Package_Id (h1 p) := None)\<rparr>"
    using assms ok l f d by (auto simp: RetrievePackageInternal_rev_def)
  moreover have "Package_Id (h1 p) = Package_Id (h p)"
    using f' by simp
  ultimately show ?thesis
    using ok l f' d by auto
qed

lemma RetrievePackageInternal_success:
  assumes "RetrievePackageInternal iv h i ok = Inr (Inr pkg, iv', h')"
  shows "ok \<and> (\<exists>l. locker_at iv i = Inr l \<and> Contents l = Some pkg
            \<and> h' = h(pkg := (h pkg)\<lparr>StoredIn := None\<rparr>)
            \<and> DeallocateLocker (set_locker iv i (l\<lparr>Contents := None\<rparr>)) i = Inr iv')"
proof -
  have ok: ok
    using assms by (cases ok) (simp_all add: RetrievePackageInternal_def)
  then obtain l where l: "locker_at iv i = Inr l"
    using assms by (cases "locker_at iv i") (simp_all add: RetrievePackageInternal_def)
  obtain p l' h1 where f: "Fetch l h = Inr (p, l', h1)"
    using assms ok l
    by (cases "Fetch l h") (auto simp: RetrievePackageInternal_def)
  note f' = f [unfolded Fetch_ok_iff]
  obtain iv2 where d: "DeallocateLocker (set_locker iv i l') i = Inr iv2"
    using assms ok l f
    by (cases "DeallocateLocker (set_locker iv i l') i") (simp_all add: RetrievePackageInternal_def)
  have "pkg = p" "h' = h1" "iv' = iv2"
    using assms ok l f d by (auto simp: RetrievePackageInternal_def)
  then show ?thesis
    using ok l f' d by auto
qed

lemma lookup_ok_simps:
  "m k = None \<Longrightarrow> lookup_ok m k = (0, False)"
  "m k = Some i \<Longrightarrow> lookup_ok m k = (i, True)"
  by (simp_all add: lookup_ok_def)

lemma set_locker_fields [simp]:
  "Inv_Lockers (set_locker iv i l) = (Inv_Lockers iv)[nat i := l]"
  "Control (set_locker iv i l) = Control iv"
  "Sizes (set_locker iv i l) = Sizes iv"
  "LockersById (set_locker iv i l) = LockersById iv"
  "LockersByPackageId (set_locker iv i l) = LockersByPackageId iv"
  by (simp_all add: set_locker_def)

end
